theory Spec2Isabelle
  imports Complex_Main
begin

section \<open>MapLineSeries\<close>

text \<open>
  The series, its data items, the point data items they connect and the map lines are
  objects that the source shares by reference. The embedding keeps each kind of object in
  a store indexed by a reference (a natural number); a field holding an object holds its
  reference. Settings that may be absent (\<^verbatim>\<open>undefined\<close>) are options.
\<close>

subsection \<open>Data model\<close>

type_synonym number = real

type_synonym point_ref = nat

type_synonym item_ref = nat

type_synonym line_ref = nat

text \<open>GeoJSON geometries a line series accepts (\<^verbatim>\<open>_types\<close>).\<close>

datatype geometry =
    LineString "number list list"
  | MultiLineString "number list list list"

text \<open>
  A data item of a MapPointSeries, as far as this series reads it: the two coordinates,
  and the listeners registered on it by \<^verbatim>\<open>point.on(key, ...)\<close>, each of which calls
  \<^verbatim>\<open>_markDirtyValues\<close> with the line data item recorded here.
\<close>

record point_item =
  longitude :: "number option"
  latitude :: "number option"
  listeners :: "(string \<times> item_ref) list"

text \<open>\<^verbatim>\<open>IMapLineSeriesDataItem\<close>, with the dirty flag of its \<^verbatim>\<open>value\<close> key.\<close>

record line_item =
  mapLine :: "line_ref option"
  geometry :: "geometry option"
  pointsToConnect :: "point_ref list option"
  valueDirty :: bool

text \<open>
  A MapLine, as far as the series touches it: its \<^verbatim>\<open>geometry\<close> setting, the data item
  given by \<^verbatim>\<open>_setDataItem\<close>, whether the private setting \<^verbatim>\<open>series\<close> has been set to this
  series, and the two operations the series delegates to it.
\<close>

record map_line =
  ml_geometry :: "geometry option"
  ml_dataItem :: "item_ref option"
  ml_series :: bool
  ml_projectionDirty :: nat
  ml_disposed :: bool

text \<open>Calls to the methods inherited from MapSeries, which lie outside the file.\<close>

datatype super_call =
    SuperProcessDataItem item_ref
  | SuperMarkDirtyValues
  | SuperDisposeDataItem item_ref

record series =
  dataItems :: "item_ref list"
  itemStore :: "item_ref \<Rightarrow> line_item"
  pointStore :: "point_ref \<Rightarrow> point_item"
  lineStore :: "line_ref \<Rightarrow> map_line"
  nextLine :: line_ref
  mapLines :: "line_ref list"
  children :: "line_ref list"
  superCalls :: "super_call list"

subsection \<open>Operations of collaborators\<close>

text \<open>
  Modelled from the spec: \<^verbatim>\<open>DataItem.get(key, fallback)\<close> is declared outside the file;
  the spec has it return the fallback when the point lacks the coordinate.
\<close>

definition get_or :: "'a option \<Rightarrow> 'a \<Rightarrow> 'a" where
  "get_or v fallback = (case v of None \<Rightarrow> fallback | Some x \<Rightarrow> x)"

text \<open>
  Modelled from the spec: \<^verbatim>\<open>MapLine.markDirtyProjection\<close> is declared outside the file;
  the spec has it invalidate only the cached screen projection of the shape, which is
  counted here, and leave the geometry data alone.
\<close>

definition line_markDirtyProjection :: "map_line \<Rightarrow> map_line" where
  "line_markDirtyProjection ml = ml\<lparr>ml_projectionDirty := Suc (ml_projectionDirty ml)\<rparr>"

text \<open>
  Modelled from the spec: \<^verbatim>\<open>MapLine.dispose\<close> is declared outside the file; the spec
  delegates the freeing of rendering resources to the shape, which is marked disposed.
\<close>

definition line_dispose :: "map_line \<Rightarrow> map_line" where
  "line_dispose ml = ml\<lparr>ml_disposed := True\<rparr>"

text \<open>
  Modelled from the spec: \<^verbatim>\<open>ListTemplate.removeValue\<close> is declared outside the file;
  the spec has it remove the line shape from the managed collection, which does not hold
  the shape afterwards.
\<close>

definition removeValue :: "'a \<Rightarrow> 'a list \<Rightarrow> 'a list" where
  "removeValue v vs = removeAll v vs"

text \<open>
  The line \<^verbatim>\<open>mapLines.make()\<close> builds: \<^verbatim>\<open>MapLine.new(root, {}, template)\<close> with the
  empty template of the declaration of \<^verbatim>\<open>mapLines\<close>.
\<close>

definition new_line :: map_line where
  "new_line = \<lparr>ml_geometry = None, ml_dataItem = None, ml_series = False,
               ml_projectionDirty = 0, ml_disposed = False\<rparr>"

subsection \<open>Methods of MapLineSeries\<close>

definition makeMapLine :: "series \<Rightarrow> item_ref \<Rightarrow> line_ref \<times> series" where
  "makeMapLine s dataItem =
     (let l = nextLine s;
          s1 = s\<lparr>nextLine := Suc l, lineStore := (lineStore s)(l := new_line),
                 children := children s @ [l]\<rparr>;
          s2 = s1\<lparr>lineStore := (lineStore s1)(l := (lineStore s1 l)\<lparr>ml_dataItem := Some dataItem\<rparr>)\<rparr>;
          s3 = s2\<lparr>mapLines := mapLines s2 @ [l]\<rparr>
      in (l, s3))"

definition markDirtyProjection_item :: "series \<Rightarrow> item_ref \<Rightarrow> series" where
  "markDirtyProjection_item s dataItem =
     (case mapLine (itemStore s dataItem) of
        None \<Rightarrow> s
      | Some l \<Rightarrow> s\<lparr>lineStore := (lineStore s)(l := line_markDirtyProjection (lineStore s l))\<rparr>)"

definition markDirtyProjection :: "series \<Rightarrow> series" where
  "markDirtyProjection s = foldl markDirtyProjection_item s (dataItems s)"

definition subscribe_point :: "item_ref \<Rightarrow> (point_ref \<Rightarrow> point_item) \<Rightarrow> point_ref \<Rightarrow> (point_ref \<Rightarrow> point_item)" where
  "subscribe_point dataItem ps p =
     ps(p := (ps p)\<lparr>listeners := listeners (ps p) @
        [(''longitude'', dataItem), (''latitude'', dataItem), (''geometry'', dataItem)]\<rparr>)"

definition processDataItem :: "series \<Rightarrow> item_ref \<Rightarrow> series" where
  "processDataItem s dataItem =
     (let s0 = s\<lparr>superCalls := superCalls s @ [SuperProcessDataItem dataItem]\<rparr>;
          (l, s1) = makeMapLine s0 dataItem;
          s2 = s1\<lparr>itemStore := (itemStore s1)(dataItem := (itemStore s1 dataItem)\<lparr>mapLine := Some l\<rparr>)\<rparr>;
          s3 = (case pointsToConnect (itemStore s2 dataItem) of
                  None \<Rightarrow> s2
                | Some points \<Rightarrow> s2\<lparr>pointStore := foldl (subscribe_point dataItem) (pointStore s2) points\<rparr>)
      in s3\<lparr>lineStore := (lineStore s3)(l := (lineStore s3 l)\<lparr>ml_series := True\<rparr>)\<rparr>)"

definition point_coordinates :: "(point_ref \<Rightarrow> point_item) \<Rightarrow> point_ref \<Rightarrow> number list" where
  "point_coordinates ps p = [get_or (longitude (ps p)) 0, get_or (latitude (ps p)) 0]"

definition markDirtyValues :: "series \<Rightarrow> item_ref option \<Rightarrow> series" where
  "markDirtyValues s arg =
     (case arg of
        None \<Rightarrow> s\<lparr>superCalls := superCalls s @ [SuperMarkDirtyValues]\<rparr>
      | Some dataItem \<Rightarrow>
          (let s1 = (if valueDirty (itemStore s dataItem)
                     then s\<lparr>superCalls := superCalls s @ [SuperMarkDirtyValues]\<rparr> else s)
           in case mapLine (itemStore s1 dataItem) of
                None \<Rightarrow> s1
              | Some l \<Rightarrow>
                  (case pointsToConnect (itemStore s1 dataItem) of
                     Some points \<Rightarrow>
                       (let coordinates = foldl (\<lambda>cs p. cs @ [point_coordinates (pointStore s1) p]) [] points
                        in s1\<lparr>lineStore := (lineStore s1)(l := (lineStore s1 l)\<lparr>ml_geometry := Some (LineString coordinates)\<rparr>)\<rparr>)
                   | None \<Rightarrow>
                       s1\<lparr>lineStore := (lineStore s1)(l := (lineStore s1 l)\<lparr>ml_geometry := geometry (itemStore s1 dataItem)\<rparr>)\<rparr>)))"

text \<open>
  \<^verbatim>\<open>disposeDataItem\<close>: the call of the inherited method, which is recorded, and then the
  statements of the method itself, on the state the inherited method leaves.
\<close>

definition disposeDataItem_own :: "series \<Rightarrow> item_ref \<Rightarrow> series" where
  "disposeDataItem_own s1 dataItem =
     (case mapLine (itemStore s1 dataItem) of
        None \<Rightarrow> s1
      | Some l \<Rightarrow>
          (let s2 = s1\<lparr>mapLines := removeValue l (mapLines s1)\<rparr>
           in s2\<lparr>lineStore := (lineStore s2)(l := line_dispose (lineStore s2 l))\<rparr>))"

definition disposeDataItem :: "series \<Rightarrow> item_ref \<Rightarrow> series" where
  "disposeDataItem s dataItem =
     disposeDataItem_own (s\<lparr>superCalls := superCalls s @ [SuperDisposeDataItem dataItem]\<rparr>) dataItem"

section \<open>ExportingMenu\<close>

text \<open>
  Menu items and DOM anchors are objects shared by reference: the configured item list
  holds item references, \<^verbatim>\<open>_activeItem\<close> is one of them, and the \<^verbatim>\<open>element\<close> field of
  an item refers to the anchor built for it. A handler that raises leaves the mutations
  made before the raise in place, so a handler returns its outcome together with the
  state; a loop that may run forever returns an option, \<open>None\<close> standing for no
  return.
\<close>

subsection \<open>Data model\<close>

type_synonym anchor_ref = nat

type_synonym menu_item_ref = nat

datatype item_type = Format | Separator | Custom

text \<open>
  Modelled from the spec: the types \<^verbatim>\<open>ExportingFormats\<close> and \<^verbatim>\<open>ExportingTypes\<close> are
  declared in Exporting.ts, outside the file; their values are the identifiers the
  default item list enumerates.
\<close>

datatype ExportingFormats = PNG | JPG | PDF | JSON | CSV | XLSX | PDFDATA | HTML | PRINT

datatype ExportingTypes = TImage | TData | TPrint

record menu_item =
  itemType :: item_type
  format :: "ExportingFormats option"
  exportType :: "ExportingTypes option"
  label :: "string option"
  sublabel :: "string option"
  callback :: "nat option"
  callbackTarget :: "nat option"
  element :: "anchor_ref option"

text \<open>
  The children of an element are set through its \<^verbatim>\<open>innerHTML\<close> property: the browser
  parses the string assigned, and serialises the children again when the property is
  read. Parser and serialiser belong to the browser, so the embedding keeps the
  assignments made, which determine the children: none, \<^verbatim>\<open>a.innerHTML = t\<close>, and
  \<^verbatim>\<open>a.innerHTML += t\<close> on an element whose content was \<open>c\<close> (the serialisation of \<open>c\<close>
  followed by \<open>t\<close>, parsed again).
\<close>

datatype inner_html =
    NoChildren
  | Assigned string
  | Appended inner_html string

text \<open>The listeners \<^verbatim>\<open>createItems\<close> attaches to an anchor, by what they call.\<close>

datatype handler =
    CallCallback nat "nat option"
  | HandleClick menu_item_ref
  | HandleItemFocus menu_item_ref
  | HandleItemBlur menu_item_ref

record anchor =
  a_innerHTML :: inner_html
  a_className :: string
  a_tabindex :: "int option"
  a_ariaLabel :: "string option"
  a_listeners :: "(string \<times> handler) list"

record li =
  li_role :: string
  li_className :: string
  li_child :: anchor_ref

text \<open>The paired exporter, as far as the menu reads it.\<close>

record exporter =
  supportedFormats :: "ExportingFormats list"
  supportedExportTypes :: "ExportingTypes list"

record settings =
  s_align :: "string option"
  s_valign :: "string option"
  s_items :: "menu_item_ref list option"
  s_exporting :: "exporter option"
  s_autoClose :: "bool option"

datatype menu_event = menucreated | menuopened | menuclosed

text \<open>
  What the menu does to its collaborators, in order: events dispatched, calls to the
  exporter, \<^verbatim>\<open>$utils.blur()\<close> and \<^verbatim>\<open>element.focus()\<close>.
\<close>

datatype effect =
    Dispatch menu_event
  | UtilsBlur
  | ElementFocus anchor_ref
  | ExportPrint
  | ExportDownload "ExportingFormats option"

datatype error = TypeError

datatype outcome = Normal | Thrown error

record menu =
  translate :: "string \<Rightarrow> string"
  tabindex :: int
  align :: "string option"
  valign :: "string option"
  items :: "menu_item_ref list option"
  exporting :: "exporter option"
  autoClose :: "bool option"
  itemHeap :: "menu_item_ref \<Rightarrow> menu_item"
  nextItem :: menu_item_ref
  anchorHeap :: "anchor_ref \<Rightarrow> anchor"
  nextAnchor :: anchor_ref
  menuClassName :: string
  iconClassName :: string
  listClassName :: string
  listElement :: "li list"
  itemElements :: "li list"
  activeItem :: "menu_item_ref option"
  isOpen :: bool
  isOver :: bool
  effects :: "effect list"

subsection \<open>JavaScript primitives\<close>

text \<open>\<^verbatim>\<open>Array.prototype.indexOf\<close>: the first index holding the value, or -1.\<close>

fun indexOf_from :: "int \<Rightarrow> 'a list \<Rightarrow> 'a \<Rightarrow> int" where
  "indexOf_from k [] x = - 1"
| "indexOf_from k (y # ys) x = (if y = x then k else indexOf_from (k + 1) ys x)"

definition indexOf :: "'a list \<Rightarrow> 'a \<Rightarrow> int" where
  "indexOf xs x = indexOf_from 0 xs x"

text \<open>Truthiness of an optional string: \<^verbatim>\<open>undefined\<close> and the empty string are falsy.\<close>

definition truthy :: "string option \<Rightarrow> bool" where
  "truthy v = (case v of None \<Rightarrow> False | Some t \<Rightarrow> t \<noteq> [])"

definition type_name :: "item_type \<Rightarrow> string" where
  "type_name t = (case t of Format \<Rightarrow> ''format'' | Separator \<Rightarrow> ''separator'' | Custom \<Rightarrow> ''custom'')"

definition format_name :: "ExportingFormats \<Rightarrow> string" where
  "format_name f = (case f of PNG \<Rightarrow> ''png'' | JPG \<Rightarrow> ''jpg'' | PDF \<Rightarrow> ''pdf'' | JSON \<Rightarrow> ''json''
     | CSV \<Rightarrow> ''csv'' | XLSX \<Rightarrow> ''xlsx'' | PDFDATA \<Rightarrow> ''pdfdata'' | HTML \<Rightarrow> ''html'' | PRINT \<Rightarrow> ''print'')"

subsection \<open>Construction\<close>

definition mk_item :: "item_type \<Rightarrow> ExportingFormats option \<Rightarrow> ExportingTypes option \<Rightarrow>
    string option \<Rightarrow> string option \<Rightarrow> menu_item" where
  "mk_item t f e l sl = \<lparr>itemType = t, format = f, exportType = e, label = l, sublabel = sl,
     callback = None, callbackTarget = None, element = None\<rparr>"

text \<open>The array literal passed to \<^verbatim>\<open>_setRawDefault("items", ...)\<close>.\<close>

definition defaultItems :: "(string \<Rightarrow> string) \<Rightarrow> menu_item list" where
  "defaultItems tr =
     [mk_item Separator None None (Some (tr ''Export'')) None,
      mk_item Format (Some PNG) (Some TImage) (Some (tr ''PNG'')) (Some (tr ''Image'')),
      mk_item Format (Some JPG) (Some TImage) (Some (tr ''JPG'')) (Some (tr ''Image'')),
      mk_item Format (Some PDF) (Some TImage) (Some (tr ''PDF'')) (Some (tr ''Image'')),
      mk_item Separator None (Some TData) None None,
      mk_item Format (Some JSON) (Some TData) (Some (tr ''JSON'')) (Some (tr ''Data'')),
      mk_item Format (Some CSV) (Some TData) (Some (tr ''CSV'')) (Some (tr ''Data'')),
      mk_item Format (Some XLSX) (Some TData) (Some (tr ''XLSX'')) (Some (tr ''Data'')),
      mk_item Format (Some PDFDATA) (Some TData) (Some (tr ''PDF'')) (Some (tr ''Data'')),
      mk_item Format (Some HTML) (Some TData) (Some (tr ''HTML'')) (Some (tr ''Data'')),
      mk_item Separator None None None None,
      mk_item Format (Some PRINT) (Some TPrint) (Some (tr ''Print'')) None]"

text \<open>
  Allocation of the objects of an array literal, in order, from the allocation mark on;
  the array then holds the references from the mark up to the new mark.
\<close>

fun allocItems :: "(menu_item_ref \<Rightarrow> menu_item) \<Rightarrow> menu_item_ref \<Rightarrow> menu_item list \<Rightarrow>
    (menu_item_ref \<Rightarrow> menu_item)" where
  "allocItems h n [] = h"
| "allocItems h n (x # xs) = allocItems (h(n := x)) (Suc n) xs"

text \<open>
  Modelled from the spec: \<^verbatim>\<open>Entity._setRawDefault\<close> is declared outside the file; the
  spec has a default used when the setting is not configured.
\<close>

definition setRawDefault :: "'a option \<Rightarrow> 'a \<Rightarrow> 'a option" where
  "setRawDefault v d = (case v of None \<Rightarrow> Some d | Some x \<Rightarrow> Some x)"

definition applyClassNames :: "menu \<Rightarrow> menu" where
  "applyClassNames m =
     (let al = get_or (align m) ''right'';
          val = get_or (valign m) ''top'';
          status = (if isOpen m then ''am5exporting-menu-open'' else ''am5exporting-menu-closed'')
      in m\<lparr>menuClassName := ''am5exporting am5exporting-menu am5exporting-align-'' @ al @
               '' am5exporting-valign-'' @ val @ '' '' @ status,
           iconClassName := ''am5exporting am5exporting-icon am5exporting-align-'' @ al @
               '' am5exporting-valign-'' @ val,
           listClassName := ''am5exporting am5exporting-list am5exporting-align-'' @ al @
               '' am5exporting-valign-'' @ val\<rparr>)"

text \<open>
  The object the constructor leaves: the settings as given and the fields at their
  declared initial values. The item objects the settings refer to live in the given heap,
  below the given allocation mark.
\<close>

definition constructed :: "(string \<Rightarrow> string) \<Rightarrow> int \<Rightarrow> settings \<Rightarrow>
    (menu_item_ref \<Rightarrow> menu_item) \<Rightarrow> menu_item_ref \<Rightarrow> menu" where
  "constructed tr tab st h n =
     \<lparr>translate = tr, tabindex = tab, align = s_align st, valign = s_valign st,
      items = s_items st, exporting = s_exporting st, autoClose = s_autoClose st,
      itemHeap = h, nextItem = n,
      anchorHeap = (\<lambda>_. \<lparr>a_innerHTML = NoChildren, a_className = [], a_tabindex = None,
                           a_ariaLabel = None, a_listeners = []\<rparr>),
      nextAnchor = 0,
      menuClassName = [], iconClassName = [], listClassName = [],
      listElement = [], itemElements = [], activeItem = None,
      isOpen = False, isOver = False, effects = []\<rparr>"

text \<open>
  \<^verbatim>\<open>_afterNew\<close>: the defaults of the settings modelled here, the class names, and the
  \<^verbatim>\<open>menucreated\<close> event. The listeners it registers are the functions below.
\<close>

definition afterNew :: "menu \<Rightarrow> menu" where
  "afterNew m =
     (let m1 = m\<lparr>align := setRawDefault (align m) ''right''\<rparr>;
          m2 = m1\<lparr>valign := setRawDefault (valign m1) ''top''\<rparr>;
          m3 = m2\<lparr>autoClose := setRawDefault (autoClose m2) True\<rparr>;
          literal = defaultItems (translate m3);
          m4 = m3\<lparr>itemHeap := allocItems (itemHeap m3) (nextItem m3) literal,
                  nextItem := nextItem m3 + length literal,
                  items := setRawDefault (items m3) [nextItem m3 ..< nextItem m3 + length literal]\<rparr>;
          m5 = applyClassNames m4
      in m5\<lparr>effects := effects m5 @ [Dispatch menucreated]\<rparr>)"

definition ExportingMenu_new :: "(string \<Rightarrow> string) \<Rightarrow> int \<Rightarrow> settings \<Rightarrow>
    (menu_item_ref \<Rightarrow> menu_item) \<Rightarrow> menu_item_ref \<Rightarrow> menu" where
  "ExportingMenu_new tr tab st h n = afterNew (constructed tr tab st h n)"

subsection \<open>Open, close, toggle\<close>

definition menu_open :: "menu \<Rightarrow> menu" where
  "menu_open m =
     (let m1 = applyClassNames (m\<lparr>isOpen := True\<rparr>)
      in m1\<lparr>effects := effects m1 @ [Dispatch menuopened]\<rparr>)"

definition menu_close :: "menu \<Rightarrow> menu" where
  "menu_close m =
     (let m1 = m\<lparr>isOpen := False\<rparr>;
          m2 = applyClassNames (m1\<lparr>effects := effects m1 @ [UtilsBlur]\<rparr>)
      in m2\<lparr>effects := effects m2 @ [Dispatch menuclosed]\<rparr>)"

definition menu_toggle :: "menu \<Rightarrow> menu" where
  "menu_toggle m = (if isOpen m then menu_close m else menu_open m)"

subsection \<open>Building the item list\<close>

definition li_class :: "menu_item \<Rightarrow> string" where
  "li_class item =
     ''am5exporting am5exporting-item am5exporting-type-'' @ type_name (itemType item) @
     (case format item of None \<Rightarrow> [] | Some f \<Rightarrow> '' am5exporting-format-'' @ format_name f)"

definition item_anchor :: "(string \<Rightarrow> string) \<Rightarrow> int \<Rightarrow> menu_item_ref \<Rightarrow> menu_item \<Rightarrow> anchor" where
  \<open>item_anchor tr tab r item =
     (let html1 = (if truthy (label item) then Assigned (get_or (label item) []) else NoChildren);
          aria1 = tr ''Export'' @ (if truthy (label item) then '' '' @ get_or (label item) [] else []);
          html2 = (if truthy (sublabel item)
                   then Appended html1
                     ('' <span class="am5exporting-label-alt">'' @ get_or (sublabel item) [] @ ''</span>'')
                   else html1);
          aria2 = aria1 @ (if truthy (sublabel item) then '' ('' @ get_or (sublabel item) [] @ '')'' else [])
      in case callback item of
           Some cb \<Rightarrow>
             \<lparr>a_innerHTML = html2, a_className = [], a_tabindex = Some tab, a_ariaLabel = None,
              a_listeners = [(''click'', CallCallback cb (callbackTarget item))]\<rparr>
         | None \<Rightarrow>
             (if format item \<noteq> None
              then \<lparr>a_innerHTML = html2, a_className = [], a_tabindex = Some tab,
                    a_ariaLabel = Some aria2,
                    a_listeners = [(''click'', HandleClick r), (''focus'', HandleItemFocus r),
                                   (''blur'', HandleItemBlur r)]\<rparr>
              else \<lparr>a_innerHTML = html2, a_className = [], a_tabindex = None, a_ariaLabel = None,
                    a_listeners = []\<rparr>))\<close>

text \<open>The two early returns of the loop body of \<^verbatim>\<open>createItems\<close>.\<close>

definition skipped :: "exporter \<Rightarrow> menu_item \<Rightarrow> bool" where
  "skipped ex item =
     ((case format item of None \<Rightarrow> False | Some f \<Rightarrow> indexOf (supportedFormats ex) f = - 1) \<or>
      (case exportType item of None \<Rightarrow> False | Some t \<Rightarrow> indexOf (supportedExportTypes ex) t = - 1))"

definition createItem :: "exporter \<Rightarrow> menu \<Rightarrow> menu_item_ref \<Rightarrow> menu" where
  "createItem ex m r =
     (if skipped ex (itemHeap m r) then m
      else
        (let a = nextAnchor m;
             entry = \<lparr>li_role = ''menuitem'', li_className = li_class (itemHeap m r), li_child = a\<rparr>;
             m1 = m\<lparr>nextAnchor := Suc a,
                    anchorHeap := (anchorHeap m)(a := item_anchor (translate m) (tabindex m) r (itemHeap m r))\<rparr>;
             m2 = m1\<lparr>itemHeap := (itemHeap m1)(r := (itemHeap m1 r)\<lparr>element := Some a\<rparr>)\<rparr>
         in m2\<lparr>listElement := listElement m2 @ [entry], itemElements := itemElements m2 @ [entry]\<rparr>))"

definition createItems :: "menu \<Rightarrow> menu" where
  "createItems m =
     (case exporting m of
        None \<Rightarrow> m
      | Some ex \<Rightarrow>
          foldl (createItem ex) (m\<lparr>listElement := [], itemElements := []\<rparr>) (get_or (items m) []))"

subsection \<open>Click and focus handlers\<close>

definition handleClick :: "menu \<Rightarrow> menu_item_ref \<Rightarrow> outcome \<times> menu" where
  "handleClick m item =
     (let m1 = (if autoClose m = Some True then menu_close m else m)
      in case exporting m of
           None \<Rightarrow> (Thrown TypeError, m1)
         | Some ex \<Rightarrow>
             (if format (itemHeap m1 item) = Some PRINT
              then (Normal, m1\<lparr>effects := effects m1 @ [ExportPrint]\<rparr>)
              else (Normal, m1\<lparr>effects := effects m1 @ [ExportDownload (format (itemHeap m1 item))]\<rparr>)))"

text \<open>
  \<^verbatim>\<open>item.element!.className = ...\<close> raises a TypeError when the item has no element. The
  focus and blur events the browser dispatches on \<^verbatim>\<open>element.focus()\<close> are outside the
  file; the call is recorded.
\<close>

definition setClassName :: "menu \<Rightarrow> menu_item_ref \<Rightarrow> string \<Rightarrow> error + menu" where
  "setClassName m item c =
     (case element (itemHeap m item) of
        None \<Rightarrow> Inl TypeError
      | Some a \<Rightarrow> Inr (m\<lparr>anchorHeap := (anchorHeap m)(a := (anchorHeap m a)\<lparr>a_className := c\<rparr>)\<rparr>))"

definition handleItemFocus :: "menu \<Rightarrow> menu_item_ref \<Rightarrow> outcome \<times> menu" where
  "handleItemFocus m item =
     (if Some item \<noteq> activeItem m then
        (case (case activeItem m of None \<Rightarrow> Inr m | Some old \<Rightarrow> setClassName m old []) of
           Inl e \<Rightarrow> (Thrown e, m)
         | Inr m1 \<Rightarrow>
             (let m2 = m1\<lparr>activeItem := Some item\<rparr>
              in case setClassName m2 item ''am5exporting-item-active'' of
                   Inl e \<Rightarrow> (Thrown e, m2)
                 | Inr m3 \<Rightarrow>
                     (Normal, m3\<lparr>effects := effects m3 @ [ElementFocus (the (element (itemHeap m3 item)))]\<rparr>)))
      else (Normal, m))"

subsection \<open>Keyboard navigation\<close>

definition wrapIndex :: "int \<Rightarrow> int \<Rightarrow> int" where
  "wrapIndex n newIndex =
     (if newIndex < 0 then n - 1 else if newIndex > n - 1 then 0 else newIndex)"

text \<open>
  The \<^verbatim>\<open>do ... while (!newItem)\<close> loop. Reading \<^verbatim>\<open>items[newIndex].type\<close> outside the
  array raises a TypeError.
\<close>

partial_function (option) findNewItem ::
    "(menu_item_ref \<Rightarrow> menu_item) \<Rightarrow> menu_item_ref list \<Rightarrow> int \<Rightarrow> int \<Rightarrow> (error + menu_item_ref) option" where
  "findNewItem h its dir newIndex =
     (if wrapIndex (int (length its)) newIndex < 0 \<or> int (length its) \<le> wrapIndex (int (length its)) newIndex
      then Some (Inl TypeError)
      else if itemType (h (its ! nat (wrapIndex (int (length its)) newIndex))) = Separator
      then findNewItem h its dir (wrapIndex (int (length its)) newIndex + dir)
      else Some (Inr (its ! nat (wrapIndex (int (length its)) newIndex))))"

definition arrowKey :: "menu \<Rightarrow> int \<Rightarrow> (outcome \<times> menu) option" where
  "arrowKey m keyCode =
     (let its = get_or (items m) [];
          currentIndex = (case activeItem m of None \<Rightarrow> - 1 | Some a \<Rightarrow> indexOf its a);
          currentIndex' = (if valign m = Some ''top'' \<and> currentIndex = - 1
                           then int (length its) else currentIndex);
          dir = (if keyCode = 38 then - 1 else 1)
      in case findNewItem (itemHeap m) its dir (currentIndex' + dir) of
           None \<Rightarrow> None
         | Some (Inl e) \<Rightarrow> Some (Thrown e, m)
         | Some (Inr newItem) \<Rightarrow> Some (handleItemFocus m newItem))"

text \<open>
  The \<^verbatim>\<open>keydown\<close> listener, registered when the environment supports keyboard events;
  \<open>iconFocused\<close> says whether \<^verbatim>\<open>document.activeElement\<close> is the icon of the menu.
\<close>

definition keydown :: "menu \<Rightarrow> bool \<Rightarrow> int \<Rightarrow> (outcome \<times> menu) option" where
  "keydown m iconFocused keyCode =
     (if iconFocused \<or> isOpen m then
        (if keyCode = 27 then Some (Normal, menu_close m)
         else if keyCode = 13 then
           (case activeItem m of
              Some a \<Rightarrow> Some (handleClick m a)
            | None \<Rightarrow> Some (Normal, menu_toggle m))
         else if keyCode = 38 \<or> keyCode = 40 then arrowKey m keyCode
         else Some (Normal, m))
      else Some (Normal, m))"

text \<open>
  Keys pressed one after the other while the focus is not on the icon, so that the
  listener handles them while the menu is open: the outcomes of the listener, in order,
  and the menu it leaves. A run that raised has ended, and the next key starts a new one.
\<close>

fun pressKeys :: "int list \<Rightarrow> menu \<Rightarrow> (outcome list \<times> menu) option" where
  "pressKeys [] m = Some ([], m)"
| "pressKeys (k # ks) m =
     (case keydown m False k of
        None \<Rightarrow> None
      | Some (oc, m') \<Rightarrow>
          (case pressKeys ks m' of None \<Rightarrow> None | Some (ocs, m'') \<Rightarrow> Some (oc # ocs, m'')))"

section \<open>Notions of the specification\<close>

subsection \<open>Ownership of map lines\<close>

text \<open>
  A data item owns a line when its \<^verbatim>\<open>mapLine\<close> field holds the line, the series manages
  the line, the line is not disposed and it records the data item as its own.
\<close>

definition owns :: "series \<Rightarrow> item_ref \<Rightarrow> line_ref \<Rightarrow> bool" where
  "owns s i l = (mapLine (itemStore s i) = Some l \<and> l \<in> set (mapLines s) \<and>
     \<not> ml_disposed (lineStore s l) \<and> ml_dataItem (lineStore s l) = Some i)"

text \<open>
  The invariant of the series: the managed lines are distinct and allocated, and each is
  owned by the data item it records, so that no data item has two of them; a data item of
  the series holds no line, or a line it owns, or a disposed line.
\<close>

definition owns_inv :: "series \<Rightarrow> bool" where
  "owns_inv s = (distinct (mapLines s) \<and>
     (\<forall>l \<in> set (mapLines s). l < nextLine s \<and>
        (case ml_dataItem (lineStore s l) of None \<Rightarrow> False | Some i \<Rightarrow> owns s i l)) \<and>
     (\<forall>i \<in> set (dataItems s). case mapLine (itemStore s i) of
          None \<Rightarrow> True
        | Some l \<Rightarrow> l < nextLine s \<and> (ml_disposed (lineStore s l) \<or> owns s i l)))"

subsection \<open>Menu items\<close>

text \<open>An item the exporter's capabilities admit, in the words of the specification.\<close>

definition supported :: "exporter \<Rightarrow> menu_item \<Rightarrow> bool" where
  "supported ex item =
     ((case format item of None \<Rightarrow> True | Some f \<Rightarrow> f \<in> set (supportedFormats ex)) \<and>
      (case exportType item of None \<Rightarrow> True | Some t \<Rightarrow> t \<in> set (supportedExportTypes ex)))"

text \<open>Two heaps whose items differ at most in their \<^verbatim>\<open>element\<close> field.\<close>

definition same_config :: "(menu_item_ref \<Rightarrow> menu_item) \<Rightarrow> (menu_item_ref \<Rightarrow> menu_item) \<Rightarrow> bool" where
  "same_config h h' = (\<forall>q. (h' q)\<lparr>element := None\<rparr> = (h q)\<lparr>element := None\<rparr>)"

definition interactive :: "(menu_item_ref \<Rightarrow> menu_item) \<Rightarrow> menu_item_ref \<Rightarrow> bool" where
  "interactive h r = (itemType (h r) \<noteq> Separator)"

text \<open>
  The next interactive item in circular order: the first interactive item of the list
  read from just after the first occurrence of the active item and then from its start
  again; with no active item (or one that is not in the list), from the start.
\<close>

definition next_interactive :: "(menu_item_ref \<Rightarrow> menu_item) \<Rightarrow> menu_item_ref list \<Rightarrow>
    menu_item_ref option \<Rightarrow> menu_item_ref" where
  "next_interactive h its act =
     (case act of
        None \<Rightarrow> hd (filter (interactive h) its)
      | Some a \<Rightarrow> hd (filter (interactive h) (tl (dropWhile (\<lambda>x. x \<noteq> a) its) @ its)))"

text \<open>
  The previous one: the last interactive item of the list followed by its part before the
  first occurrence of the active item.
\<close>

definition prev_interactive :: "(menu_item_ref \<Rightarrow> menu_item) \<Rightarrow> menu_item_ref list \<Rightarrow>
    menu_item_ref option \<Rightarrow> menu_item_ref" where
  "prev_interactive h its act =
     (case act of
        None \<Rightarrow> last (filter (interactive h) its)
      | Some a \<Rightarrow> last (filter (interactive h) (its @ takeWhile (\<lambda>x. x \<noteq> a) its)))"

text \<open>The active item, if there is one, has an element.\<close>

definition active_rendered :: "menu \<Rightarrow> bool" where
  "active_rendered m =
     (case activeItem m of None \<Rightarrow> True | Some a \<Rightarrow> element (itemHeap m a) \<noteq> None)"

section \<open>Example states\<close>

definition ex_points :: "point_ref \<Rightarrow> point_item" where
  "ex_points = (\<lambda>_. \<lparr>longitude = None, latitude = None, listeners = []\<rparr>)
     (10 := \<lparr>longitude = Some 0, latitude = Some 0, listeners = []\<rparr>,
      11 := \<lparr>longitude = Some 1, latitude = None, listeners = []\<rparr>,
      12 := \<lparr>longitude = Some 2, latitude = Some 2, listeners = []\<rparr>)"

definition ex_series :: series where
  "ex_series =
     \<lparr>dataItems = [2, 3],
      itemStore = (\<lambda>_. \<lparr>mapLine = None, geometry = None, pointsToConnect = None, valueDirty = False\<rparr>)
        (2 := \<lparr>mapLine = None, geometry = None, pointsToConnect = Some [10, 11, 12],
               valueDirty = False\<rparr>,
         3 := \<lparr>mapLine = None, geometry = Some (LineString [[0, 0], [5, 5]]),
               pointsToConnect = None, valueDirty = True\<rparr>),
      pointStore = ex_points, lineStore = (\<lambda>_. new_line), nextLine = 7,
      mapLines = [], children = [], superCalls = []\<rparr>"

definition ex_processed :: series where
  "ex_processed = processDataItem ex_series 2"

definition small_heap :: "menu_item_ref \<Rightarrow> menu_item" where
  "small_heap = (\<lambda>_. mk_item Separator None None None None)
     (4 := mk_item Format (Some PNG) (Some TImage) (Some ''PNG'') (Some ''Image''),
      5 := mk_item Format (Some CSV) (Some TData) (Some ''CSV'') (Some ''Data''))"

definition small_menu :: "exporter option \<Rightarrow> menu_item_ref list \<Rightarrow> menu" where
  "small_menu exo itms = ExportingMenu_new (\<lambda>t. t) 0
     \<lparr>s_align = None, s_valign = None, s_items = Some itms, s_exporting = exo, s_autoClose = None\<rparr>
     small_heap 6"

definition png_csv :: exporter where
  "png_csv = \<lparr>supportedFormats = [PNG, CSV], supportedExportTypes = [TImage, TData]\<rparr>"


definition default_menu :: menu where
  "default_menu = ExportingMenu_new (\<lambda>t. t) 0
     \<lparr>s_align = None, s_valign = None, s_items = None, s_exporting = Some png_csv, s_autoClose = None\<rparr>
     (\<lambda>_. mk_item Separator None None None None) 0"

definition noexp_menu :: menu where
  "noexp_menu = small_menu None [3, 4, 5]"


text \<open>
  The menu of the default items with the exporter of png and csv, built and opened, and
  the menus the focus handler leaves when the arrow keys are pressed on it.
\<close>

definition opened_menu :: menu where
  "opened_menu = menu_open (createItems default_menu)"

definition at_png :: menu where
  "at_png = snd (handleItemFocus opened_menu 1)"

definition at_jpg :: menu where
  "at_jpg = snd (handleItemFocus at_png 2)"

definition at_print :: menu where
  "at_print = snd (handleItemFocus opened_menu 11)"

definition at_png_print :: menu where
  "at_png_print = snd (handleItemFocus at_png 11)"

section \<open>Geometry recomputation\<close>

lemma foldl_snoc_map: "foldl (\<lambda>cs p. cs @ [f p]) acc ps = acc @ map f ps"
  by (induction ps arbitrary: acc) simp_all

text \<open>
  C1. Recomputing the values of a data item that has a map line assigns the line's
  geometry: with \<^verbatim>\<open>pointsToConnect\<close> set, a LineString whose coordinates are, in the
  order of the point list, the pair of longitude and latitude of each point, with 0 for a
  missing coordinate; without it, the data item's own geometry field.
\<close>

theorem markDirtyValues_geometry:
  "mapLine (itemStore s i) = Some l \<Longrightarrow>
   ml_geometry (lineStore (markDirtyValues s (Some i)) l) =
     (case pointsToConnect (itemStore s i) of
        Some points \<Rightarrow>
          Some (LineString (map (\<lambda>p. [case longitude (pointStore s p) of None \<Rightarrow> 0 | Some x \<Rightarrow> x,
                                       case latitude (pointStore s p) of None \<Rightarrow> 0 | Some y \<Rightarrow> y]) points))
      | None \<Rightarrow> geometry (itemStore s i))"
  by (simp add: markDirtyValues_def Let_def foldl_snoc_map point_coordinates_def get_or_def
      split: option.splits)

lemma ex_processed_eval:
  "mapLine (itemStore ex_processed 2) = Some 7"
  "pointsToConnect (itemStore ex_processed 2) = Some [10, 11, 12]"
  by (simp_all add: ex_processed_def ex_series_def processDataItem_def makeMapLine_def Let_def)

theorem markDirtyValues_geometry_witness:
  "mapLine (itemStore ex_processed 2) = Some 7 \<and>
   ml_geometry (lineStore (markDirtyValues ex_processed (Some 2)) 7) =
     Some (LineString [[0, 0], [1, 0], [2, 2]])"
proof -
  have h: "mapLine (itemStore ex_processed 2) = Some 7"
    by (rule ex_processed_eval)
  have p: "longitude (pointStore ex_processed 10) = Some 0" "latitude (pointStore ex_processed 10) = Some 0"
     "longitude (pointStore ex_processed 11) = Some 1" "latitude (pointStore ex_processed 11) = None"
     "longitude (pointStore ex_processed 12) = Some 2" "latitude (pointStore ex_processed 12) = Some 2"
    by (simp_all add: ex_processed_def ex_series_def processDataItem_def makeMapLine_def Let_def
       subscribe_point_def ex_points_def)
  show ?thesis
    using h markDirtyValues_geometry [OF h] by (simp add: ex_processed_eval(2) p)
qed

section \<open>Projection changes\<close>

lemma markDirtyProjection_fold:
  "foldl markDirtyProjection_item s js =
     s\<lparr>lineStore := (\<lambda>l. (line_markDirtyProjection ^^
          length (filter (\<lambda>i. mapLine (itemStore s i) = Some l) js)) (lineStore s l))\<rparr>"
proof (induction js rule: rev_induct)
  case Nil
  show ?case by simp
next
  case (snoc j js)
  have "foldl markDirtyProjection_item s (js @ [j]) =
        markDirtyProjection_item (foldl markDirtyProjection_item s js) j"
    by simp
  also have "\<dots> = markDirtyProjection_item
      (s\<lparr>lineStore := (\<lambda>l. (line_markDirtyProjection ^^
          length (filter (\<lambda>i. mapLine (itemStore s i) = Some l) js)) (lineStore s l))\<rparr>) j"
    by (simp only: snoc)
  also have "\<dots> = s\<lparr>lineStore := (\<lambda>l. (line_markDirtyProjection ^^
          length (filter (\<lambda>i. mapLine (itemStore s i) = Some l) (js @ [j]))) (lineStore s l))\<rparr>"
    by (cases "mapLine (itemStore s j)") (auto simp: markDirtyProjection_item_def fun_eq_iff)
  finally show ?case .
qed

lemma line_markDirtyProjection_funpow:
  "ml_geometry ((line_markDirtyProjection ^^ n) x) = ml_geometry x"
  "ml_projectionDirty ((line_markDirtyProjection ^^ n) x) = ml_projectionDirty x + n"
  by (induction n) (simp_all add: line_markDirtyProjection_def)

text \<open>
  C9. Marking the projection dirty applies the operation of the map line to each line
  once for every data item of the series that holds it, and changes nothing else: the
  geometry of every line, like all other data of the series, stays as it was.
\<close>

theorem markDirtyProjection_effect:
  "markDirtyProjection s =
     s\<lparr>lineStore := (\<lambda>l. (line_markDirtyProjection ^^
          length (filter (\<lambda>i. mapLine (itemStore s i) = Some l) (dataItems s))) (lineStore s l))\<rparr> \<and>
   (\<forall>l. ml_geometry (lineStore (markDirtyProjection s) l) = ml_geometry (lineStore s l))"
  by (simp add: markDirtyProjection_def markDirtyProjection_fold line_markDirtyProjection_funpow)

theorem markDirtyProjection_effect_witness:
  "ml_projectionDirty (lineStore (markDirtyProjection ex_processed) 7) = 1 \<and>
   ml_geometry (lineStore (markDirtyProjection ex_processed) 7) = ml_geometry (lineStore ex_processed 7)"
proof -
  have d: "dataItems ex_processed = [2, 3]" "mapLine (itemStore ex_processed 2) = Some 7"
    "mapLine (itemStore ex_processed 3) = None" "ml_projectionDirty (lineStore ex_processed 7) = 0"
    by (simp_all add: ex_processed_def ex_series_def processDataItem_def makeMapLine_def Let_def
        new_line_def)
  have "lineStore (markDirtyProjection ex_processed) 7 =
      (line_markDirtyProjection ^^ length (filter (\<lambda>i. mapLine (itemStore ex_processed i) = Some 7)
         (dataItems ex_processed))) (lineStore ex_processed 7)"
    by (subst markDirtyProjection_effect [of ex_processed, THEN conjunct1]) simp
  then show ?thesis
    by (simp add: d line_markDirtyProjection_def)
qed

section \<open>Life cycle of the map lines\<close>

lemma dispose_effect:
  assumes "mapLine (itemStore s i) = Some l"
  shows "mapLines (disposeDataItem s i) = removeAll l (mapLines s)"
    and "ml_disposed (lineStore (disposeDataItem s i) l)"
    and "l' \<noteq> l \<Longrightarrow> lineStore (disposeDataItem s i) l' = lineStore s l'"
    and "itemStore (disposeDataItem s i) = itemStore s"
    and "dataItems (disposeDataItem s i) = dataItems s"
    and "nextLine (disposeDataItem s i) = nextLine s"
    and "ml_dataItem (lineStore (disposeDataItem s i) l') = ml_dataItem (lineStore s l')"
  using assms
  by (simp_all add: disposeDataItem_def disposeDataItem_own_def Let_def removeValue_def line_dispose_def)

lemma dispose_none:
  assumes "mapLine (itemStore s i) = None"
  shows "disposeDataItem s i = s\<lparr>superCalls := superCalls s @ [SuperDisposeDataItem i]\<rparr>"
  using assms by (simp add: disposeDataItem_def disposeDataItem_own_def Let_def)

lemma process_effect:
  shows "mapLines (processDataItem s i) = mapLines s @ [nextLine s]"
    and "nextLine (processDataItem s i) = Suc (nextLine s)"
    and "dataItems (processDataItem s i) = dataItems s"
    and "itemStore (processDataItem s i) = (itemStore s)(i := (itemStore s i)\<lparr>mapLine := Some (nextLine s)\<rparr>)"
    and "lineStore (processDataItem s i) = (lineStore s)(nextLine s := new_line\<lparr>ml_dataItem := Some i, ml_series := True\<rparr>)"
  by (simp_all add: processDataItem_def makeMapLine_def Let_def split: option.splits)

lemma dispose_own_keeps:
  "itemStore (disposeDataItem_own s1 i) = itemStore s1"
  "ml_disposed (lineStore (disposeDataItem_own s1 i) l) \<Longrightarrow> \<not> ml_disposed (lineStore s1 l) \<Longrightarrow>
     mapLine (itemStore (disposeDataItem_own s1 i) i) = Some l"
  by (auto simp: disposeDataItem_own_def Let_def line_dispose_def split: option.splits if_splits)

lemma owns_unique: "owns s i l \<Longrightarrow> owns s i l' \<Longrightarrow> l = l'"
  by (simp add: owns_def)

lemma dispose_owns:
  assumes "mapLine (itemStore s i) = Some l"
  shows "owns (disposeDataItem s i) j l' \<longleftrightarrow> owns s j l' \<and> l' \<noteq> l"
  using dispose_effect [OF assms] unfolding owns_def by (cases "l' = l") auto

lemma dispose_inv:
  assumes "owns_inv s"
  shows "owns_inv (disposeDataItem s i)"
proof (cases "mapLine (itemStore s i)")
  case None
  with assms show ?thesis by (auto simp: dispose_none owns_inv_def owns_def split: option.splits)
next
  case (Some l)
  note d = dispose_effect [OF Some]
  have ds: "\<And>l'. ml_disposed (lineStore (disposeDataItem s i) l') = (l' = l \<or> ml_disposed (lineStore s l'))"
    using d(2) d(3) by metis
  show ?thesis
    using assms unfolding owns_inv_def
    by (auto simp: d(1) d(4) d(5) d(6) d(7) ds dispose_owns [OF Some] distinct_removeAll
        split: option.splits)
qed

lemma process_owns:
  assumes "l' < nextLine s"
  shows "k \<noteq> j \<Longrightarrow> owns (processDataItem s j) k l' \<longleftrightarrow> owns s k l'"
  using assms unfolding owns_def by (auto simp: process_effect)

lemma process_inv:
  assumes "owns_inv s" "\<And>l. \<not> owns s j l"
  shows "owns_inv (processDataItem s j)"
proof -
  have o: "owns (processDataItem s j) j (nextLine s)"
    by (simp add: owns_def process_effect new_line_def)
  show "owns_inv (processDataItem s j)"
    unfolding owns_inv_def
  proof (intro conjI)
    show "distinct (mapLines (processDataItem s j))"
      using assms(1) unfolding owns_inv_def by (auto simp: process_effect)
  next
    show "\<forall>l \<in> set (mapLines (processDataItem s j)). l < nextLine (processDataItem s j) \<and>
        (case ml_dataItem (lineStore (processDataItem s j) l) of None \<Rightarrow> False
         | Some i \<Rightarrow> owns (processDataItem s j) i l)"
    proof
    fix l assume l: "l \<in> set (mapLines (processDataItem s j))"
    show "l < nextLine (processDataItem s j) \<and>
        (case ml_dataItem (lineStore (processDataItem s j) l) of None \<Rightarrow> False
         | Some i \<Rightarrow> owns (processDataItem s j) i l)"
    proof (cases "l = nextLine s")
      case True
      then show ?thesis using o by (simp add: process_effect)
    next
      case False
      with l have m: "l \<in> set (mapLines s)" by (simp add: process_effect)
      with assms(1) have lt: "l < nextLine s" and
        c: "case ml_dataItem (lineStore s l) of None \<Rightarrow> False | Some i \<Rightarrow> owns s i l"
        unfolding owns_inv_def by auto
      from c obtain i where i: "ml_dataItem (lineStore s l) = Some i" "owns s i l"
        by (auto split: option.splits)
      with assms(2) have "i \<noteq> j" by auto
      then show ?thesis using i lt False process_owns [OF lt, of i j] by (simp add: process_effect)
    qed
    qed
  next
    show "\<forall>i \<in> set (dataItems (processDataItem s j)).
        case mapLine (itemStore (processDataItem s j) i) of None \<Rightarrow> True
        | Some l \<Rightarrow> l < nextLine (processDataItem s j) \<and>
            (ml_disposed (lineStore (processDataItem s j) l) \<or> owns (processDataItem s j) i l)"
    proof
    fix i assume i: "i \<in> set (dataItems (processDataItem s j))"
    show "case mapLine (itemStore (processDataItem s j) i) of None \<Rightarrow> True
        | Some l \<Rightarrow> l < nextLine (processDataItem s j) \<and>
            (ml_disposed (lineStore (processDataItem s j) l) \<or> owns (processDataItem s j) i l)"
    proof (cases "i = j")
      case True
      then show ?thesis using o by (simp add: process_effect)
    next
      case False
      from i have "i \<in> set (dataItems s)" by (simp add: process_effect)
      with assms(1) have c: "case mapLine (itemStore s i) of None \<Rightarrow> True
        | Some l \<Rightarrow> l < nextLine s \<and> (ml_disposed (lineStore s l) \<or> owns s i l)"
        unfolding owns_inv_def by auto
      show ?thesis
      proof (cases "mapLine (itemStore s i)")
        case None
        then show ?thesis using False by (simp add: process_effect)
      next
        case (Some l)
        with c have lt: "l < nextLine s" and d: "ml_disposed (lineStore s l) \<or> owns s i l" by auto
        then show ?thesis using False Some process_owns [OF lt, of i j]
          by (auto simp: process_effect)
      qed
    qed
    qed
  qed
qed

lemma dispose_other:
  assumes "owns_inv s" "i \<in> set (dataItems s)" "j \<noteq> i" "owns s j l'"
  shows "owns (disposeDataItem s i) j l'"
proof (cases "mapLine (itemStore s i)")
  case None
  with assms show ?thesis by (simp add: dispose_none owns_def)
next
  case (Some l)
  have "l \<noteq> l'" using assms Some unfolding owns_inv_def owns_def by (auto split: option.splits)
  then show ?thesis using assms(4) by (simp add: dispose_owns [OF Some])
qed

lemma dispose_only_own:
  assumes "owns_inv s" "i \<in> set (dataItems s)"
    "ml_disposed (lineStore (disposeDataItem s i) l')" "\<not> ml_disposed (lineStore s l')"
  shows "owns s i l'"
proof (cases "mapLine (itemStore s i)")
  case None
  with assms show ?thesis by (simp add: dispose_none)
next
  case (Some l)
  have "l' = l"
  proof (rule ccontr)
    assume "l' \<noteq> l"
    from dispose_effect(3) [OF Some this] assms(3,4) show False by simp
  qed
  with assms(1,2,4) Some show ?thesis unfolding owns_inv_def by (auto split: option.splits)
qed

lemma process_other:
  assumes "owns_inv s" "k \<noteq> j" "owns s k l'"
  shows "owns (processDataItem s j) k l'"
proof -
  from assms(1,3) have "l' < nextLine s" unfolding owns_inv_def owns_def by auto
  from process_owns [OF this assms(2)] assms(3) show ?thesis by simp
qed

lemma process_keeps_alive:
  "ml_disposed (lineStore (processDataItem s j) l') \<Longrightarrow> ml_disposed (lineStore s l')"
  by (auto simp: process_effect new_line_def split: if_splits)

lemma inv_one_line:
  assumes "owns_inv s" "l \<in> set (mapLines s)" "l' \<in> set (mapLines s)"
    "ml_dataItem (lineStore s l) = Some i" "ml_dataItem (lineStore s l') = Some i"
  shows "l = l'"
proof -
  have "owns s i a" if "a \<in> set (mapLines s)" "ml_dataItem (lineStore s a) = Some i" for a
    using assms(1) that unfolding owns_inv_def by (auto split: option.splits)
  from this [of l] this [of l'] assms(2-5) show ?thesis by (auto dest: owns_unique)
qed

text \<open>
  C8, as amended. Disposing a data item that holds a map line removes the line from the
  managed collection and disposes it, touches no other line, and leaves the data item's
  own record, with its reference to the line, as it was; whatever state the inherited
  method leaves, a line the method's own statements dispose is still the one the data
  item refers to afterwards. Disposing a data item keeps the invariant of the series,
  under which no data item has two managed lines; when the item is one of the series, the
  lines owned by the other items stay theirs and the only line destroyed is the one the
  item owned. Processing a data item makes it the owner of one new line, destroys nothing
  and, under the invariant, leaves the lines owned by the other items alone; it keeps the
  invariant when the data item owns no line.
\<close>

theorem disposeDataItem_lifecycle:
  "(mapLine (itemStore s i) = Some l \<longrightarrow>
      l \<notin> set (mapLines (disposeDataItem s i)) \<and>
      mapLines (disposeDataItem s i) = removeAll l (mapLines s) \<and>
      ml_disposed (lineStore (disposeDataItem s i) l) \<and>
      (\<forall>l'. l' \<noteq> l \<longrightarrow> lineStore (disposeDataItem s i) l' = lineStore s l') \<and>
      itemStore (disposeDataItem s i) = itemStore s) \<and>
   (ml_disposed (lineStore (disposeDataItem_own s1 i) l) \<and> \<not> ml_disposed (lineStore s1 l) \<longrightarrow>
      mapLine (itemStore (disposeDataItem_own s1 i) i) = Some l) \<and>
   (owns_inv s \<longrightarrow>
      owns_inv (disposeDataItem s i) \<and>
      (\<forall>a b. a \<in> set (mapLines s) \<and> b \<in> set (mapLines s) \<and>
         ml_dataItem (lineStore s a) = Some j \<and> ml_dataItem (lineStore s b) = Some j \<longrightarrow> a = b) \<and>
      (\<forall>k l'. k \<noteq> j \<and> owns s k l' \<longrightarrow> owns (processDataItem s j) k l')) \<and>
   (owns_inv s \<and> i \<in> set (dataItems s) \<longrightarrow>
      (\<forall>k l'. k \<noteq> i \<and> owns s k l' \<longrightarrow> owns (disposeDataItem s i) k l') \<and>
      (\<forall>l'. ml_disposed (lineStore (disposeDataItem s i) l') \<and> \<not> ml_disposed (lineStore s l') \<longrightarrow>
         owns s i l')) \<and>
   (owns_inv s \<and> (\<forall>l'. \<not> owns s j l') \<longrightarrow> owns_inv (processDataItem s j)) \<and>
   owns (processDataItem s j) j (nextLine s) \<and>
   (\<forall>l'. ml_disposed (lineStore (processDataItem s j) l') \<longrightarrow> ml_disposed (lineStore s l'))"
proof (intro conjI impI allI)
  assume "ml_disposed (lineStore (disposeDataItem_own s1 i) l) \<and> \<not> ml_disposed (lineStore s1 l)"
  then show "mapLine (itemStore (disposeDataItem_own s1 i) i) = Some l"
    using dispose_own_keeps(2) [of s1 i l] by blast
next
  fix a b
  assume "owns_inv s" and "a \<in> set (mapLines s) \<and> b \<in> set (mapLines s) \<and>
         ml_dataItem (lineStore s a) = Some j \<and> ml_dataItem (lineStore s b) = Some j"
  then show "a = b" using inv_one_line [of s a b j] by blast
next
  fix l' assume "owns_inv s \<and> i \<in> set (dataItems s)"
    and "ml_disposed (lineStore (disposeDataItem s i) l') \<and> \<not> ml_disposed (lineStore s l')"
  then show "owns s i l'" using dispose_only_own [of s i l'] by blast
next
  assume "owns_inv s \<and> (\<forall>l'. \<not> owns s j l')"
  then show "owns_inv (processDataItem s j)"
    using process_inv [of s j] by blast
next
  show "owns (processDataItem s j) j (nextLine s)"
    by (simp add: owns_def process_effect new_line_def)
qed (auto simp: dispose_effect dispose_inv dispose_other process_other process_keeps_alive)

lemma ex_processed_inv: "owns_inv ex_processed" "owns ex_processed 2 7"
   "3 \<in> set (dataItems ex_processed)" "2 \<in> set (dataItems ex_processed)"
   "mapLine (itemStore ex_processed 3) = None"
  by (simp_all add: owns_inv_def owns_def ex_processed_def process_effect ex_series_def new_line_def)

text \<open>
  The claim as first stated fails in two ways. It has the reference recorded on the data
  item released; the method leaves it in place. And it has processing keep one line for
  each data item, destroyed with it; a data item that is processed while it owns a line
  gets a second one, which breaks the invariant, and disposing the item then destroys
  the second only: the first stays in the collection, alive.
\<close>

theorem disposeDataItem_lifecycle_counterexample:
  "mapLine (itemStore ex_processed 2) = Some 7 \<and>
   ml_disposed (lineStore (disposeDataItem ex_processed 2) 7) \<and>
   mapLine (itemStore (disposeDataItem ex_processed 2) 2) = Some 7 \<and>
   owns ex_processed 2 7 \<and>
   owns_inv ex_processed \<and>
   mapLines (processDataItem ex_processed 2) = [7, 8] \<and>
   ml_dataItem (lineStore (processDataItem ex_processed 2) 7) = Some 2 \<and>
   ml_dataItem (lineStore (processDataItem ex_processed 2) 8) = Some 2 \<and>
   \<not> owns_inv (processDataItem ex_processed 2) \<and>
   mapLines (disposeDataItem (processDataItem ex_processed 2) 2) = [7] \<and>
   \<not> ml_disposed (lineStore (disposeDataItem (processDataItem ex_processed 2) 2) 7)"
proof -
  have m: "mapLines ex_processed = [7]" "nextLine ex_processed = 8"
    "ml_dataItem (lineStore ex_processed 7) = Some 2" "\<not> ml_disposed (lineStore ex_processed 7)"
    by (simp_all add: ex_processed_def process_effect ex_series_def new_line_def)
  have h: "mapLine (itemStore (processDataItem ex_processed 2) 2) = Some 8"
    by (simp add: process_effect m)
  note d = dispose_effect [OF h]
  have n: "\<not> owns_inv (processDataItem ex_processed 2)"
  proof
    assume "owns_inv (processDataItem ex_processed 2)"
    then have "case ml_dataItem (lineStore (processDataItem ex_processed 2) 7) of None \<Rightarrow> False
        | Some i \<Rightarrow> owns (processDataItem ex_processed 2) i 7"
      unfolding owns_inv_def by (simp add: process_effect m)
    then show False by (simp add: process_effect m owns_def)
  qed
  show ?thesis
    by (simp add: dispose_effect [OF ex_processed_eval(1)] ex_processed_eval(1) ex_processed_inv(1,2)
        d(1) d(3) process_effect m new_line_def n)
qed

theorem disposeDataItem_lifecycle_witness:
  "mapLine (itemStore ex_processed 2) = Some 7 \<and> owns_inv ex_processed \<and>
   2 \<in> set (dataItems ex_processed) \<and> mapLine (itemStore ex_processed 3) = None \<and>
   mapLines (disposeDataItem ex_processed 2) = [] \<and>
   ml_disposed (lineStore (disposeDataItem ex_processed 2) 7) \<and>
   mapLine (itemStore (disposeDataItem_own ex_processed 2) 2) = Some 7 \<and>
   owns_inv (disposeDataItem ex_processed 2) \<and>
   owns_inv (processDataItem ex_processed 3) \<and>
   owns (processDataItem ex_processed 3) 3 8 \<and>
   owns (processDataItem ex_processed 3) 2 7"
proof -
  have m: "mapLines ex_processed = [7]" "nextLine ex_processed = 8"
    "\<not> ml_disposed (lineStore ex_processed 7)"
    by (simp_all add: ex_processed_def process_effect ex_series_def new_line_def)
  have n: "\<forall>l'. \<not> owns ex_processed 3 l'"
    by (simp add: owns_def ex_processed_inv(5))
  have o: "ml_disposed (lineStore (disposeDataItem_own ex_processed 2) 7)"
    by (simp add: disposeDataItem_own_def ex_processed_eval(1) Let_def line_dispose_def)
  show ?thesis
    using disposeDataItem_lifecycle [where s = ex_processed and i = 2 and l = 7 and j = 3
        and ?s1.0 = ex_processed]
      ex_processed_inv ex_processed_eval(1) n o m(3)
    by (simp add: m)
qed

section \<open>Open and closed\<close>

lemma applyClassNames_frame:
  "isOpen (applyClassNames m) = isOpen m" "effects (applyClassNames m) = effects m"
  "exporting (applyClassNames m) = exporting m" "items (applyClassNames m) = items m"
  "itemHeap (applyClassNames m) = itemHeap m" "activeItem (applyClassNames m) = activeItem m"
  "autoClose (applyClassNames m) = autoClose m" "valign (applyClassNames m) = valign m"
  by (simp_all add: applyClassNames_def Let_def)

lemma afterNew_frame:
  "isOpen (afterNew m) = isOpen m" "effects (afterNew m) = effects m @ [Dispatch menucreated]"
  "exporting (afterNew m) = exporting m" "activeItem (afterNew m) = activeItem m"
  "autoClose (afterNew m) = setRawDefault (autoClose m) True"
  "valign (afterNew m) = setRawDefault (valign m) ''top''"
  "itemElements (afterNew m) = itemElements m"
  by (simp_all add: afterNew_def Let_def applyClassNames_frame applyClassNames_def)

lemma menu_close_close:
  "menu_close (menu_close m) =
     (menu_close m)\<lparr>effects := effects (menu_close m) @ [UtilsBlur, Dispatch menuclosed]\<rparr>"
  by (simp add: menu_close_def applyClassNames_def Let_def)

lemma new_effect:
  "\<not> isOpen (ExportingMenu_new tr tab st h n)"
  "effects (ExportingMenu_new tr tab st h n) = [Dispatch menucreated]"
  by (simp_all add: ExportingMenu_new_def afterNew_frame constructed_def)

lemma menu_open_effect:
  "isOpen (menu_open m)" "effects (menu_open m) = effects m @ [Dispatch menuopened]"
  by (simp_all add: menu_open_def applyClassNames_frame Let_def)

lemma menu_close_effect:
  "\<not> isOpen (menu_close m)" "effects (menu_close m) = effects m @ [UtilsBlur, Dispatch menuclosed]"
  by (simp_all add: menu_close_def applyClassNames_frame Let_def)

lemma menu_toggle_effect:
  "isOpen (menu_toggle m) = (\<not> isOpen m)"
  "effects (menu_toggle m) =
     effects m @ (if isOpen m then [UtilsBlur, Dispatch menuclosed] else [Dispatch menuopened])"
  by (simp_all add: menu_toggle_def menu_open_effect menu_close_effect)

text \<open>
  C3. A new menu is closed and has dispatched \<^verbatim>\<open>menucreated\<close> exactly once; opening
  makes it open and dispatches \<^verbatim>\<open>menuopened\<close>; closing makes it closed and dispatches
  \<^verbatim>\<open>menuclosed\<close>, from any state, and closing twice leaves the state of the first close
  (only the events repeat); toggling flips the state and dispatches the event of the
  transition it makes.
\<close>

theorem menu_state_machine:
  "\<not> isOpen (ExportingMenu_new tr tab st h n) \<and>
   count_list (effects (ExportingMenu_new tr tab st h n)) (Dispatch menucreated) = 1 \<and>
   isOpen (menu_open m) \<and> effects (menu_open m) = effects m @ [Dispatch menuopened] \<and>
   \<not> isOpen (menu_close m) \<and> effects (menu_close m) = effects m @ [UtilsBlur, Dispatch menuclosed] \<and>
   menu_close (menu_close m) =
     (menu_close m)\<lparr>effects := effects (menu_close m) @ [UtilsBlur, Dispatch menuclosed]\<rparr> \<and>
   isOpen (menu_toggle m) = (\<not> isOpen m) \<and>
   effects (menu_toggle m) =
     effects m @ (if isOpen m then [UtilsBlur, Dispatch menuclosed] else [Dispatch menuopened])"
  by (simp add: new_effect menu_open_effect menu_close_effect menu_close_close menu_toggle_effect)

section \<open>Clicks\<close>

lemma createItems_no_exporter: "exporting m = None \<Longrightarrow> createItems m = m"
  by (simp add: createItems_def)

lemma handleClick_no_exporter:
  "exporting m = None \<Longrightarrow> handleClick m item =
     (Thrown TypeError, if autoClose m = Some True then menu_close m else m)"
  by (simp add: handleClick_def Let_def)


section \<open>The search loop\<close>

lemma indexOf_from_notin: "x \<notin> set xs \<Longrightarrow> indexOf_from k xs x = - 1"
  by (induction xs arbitrary: k) auto

lemma indexOf_from_first: "x \<notin> set pre \<Longrightarrow> indexOf_from k (pre @ x # post) x = k + int (length pre)"
  by (induction pre arbitrary: k) auto

lemma takeWhile_first: "x \<notin> set pre \<Longrightarrow> takeWhile (\<lambda>y. y \<noteq> x) (pre @ x # post) = pre"
  by (induction pre) auto

lemma dropWhile_first: "x \<notin> set pre \<Longrightarrow> dropWhile (\<lambda>y. y \<noteq> x) (pre @ x # post) = x # post"
  by (induction pre) auto

lemma indexOf_in:
  assumes "x \<in> set xs"
  shows "indexOf xs x = int (length (takeWhile (\<lambda>y. y \<noteq> x) xs))"
proof -
  from split_list_first [OF assms] obtain pre post where
    xs: "xs = pre @ x # post" and n: "x \<notin> set pre" by blast
  have "takeWhile (\<lambda>y. y \<noteq> x) xs = pre"
    using n unfolding xs by (rule takeWhile_first)
  then show ?thesis
    using indexOf_from_first [OF n, of 0 post] by (simp add: indexOf_def xs)
qed

lemma indexOf_minus1_iff: "indexOf xs x = - 1 \<longleftrightarrow> x \<notin> set xs"
proof
  assume "indexOf xs x = - 1"
  then show "x \<notin> set xs" using indexOf_in [of x xs] by auto
next
  assume "x \<notin> set xs"
  then show "indexOf xs x = - 1" by (simp add: indexOf_def indexOf_from_notin)
qed

lemma wrapIndex_idem: "wrapIndex n (wrapIndex n x) = wrapIndex n x"
  by (simp add: wrapIndex_def)

lemma findNewItem_unfold:
  assumes "i = wrapIndex (int (length its)) x"
  shows "findNewItem h its dir x =
     (if i < 0 \<or> int (length its) \<le> i then Some (Inl TypeError)
      else if itemType (h (its ! nat i)) = Separator then findNewItem h its dir (i + dir)
      else Some (Inr (its ! nat i)))"
  unfolding assms by (rule findNewItem.simps)

lemma findNewItem_wrap:
  "findNewItem h its dir (wrapIndex (int (length its)) x) = findNewItem h its dir x"
proof -
  have idem: "wrapIndex (int (length its)) x = wrapIndex (int (length its)) (wrapIndex (int (length its)) x)"
    by (simp add: wrapIndex_idem)
  show ?thesis
    by (rule trans [OF findNewItem_unfold [OF idem] findNewItem_unfold [OF refl, symmetric]])
qed

lemma findNewItem_in_range:
  assumes "i < length its"
  shows "findNewItem h its dir (int i) =
     (if interactive h (its ! i) then Some (Inr (its ! i)) else findNewItem h its dir (int i + dir))"
proof -
  have w: "int i = wrapIndex (int (length its)) (int i)"
    using assms by (simp add: wrapIndex_def)
  show ?thesis
    using assms by (simp add: findNewItem_unfold [OF w] interactive_def)
qed

lemma find_forward_hit:
  "i < length its \<Longrightarrow> filter (interactive h) (drop i its) \<noteq> [] \<Longrightarrow>
   findNewItem h its 1 (int i) = Some (Inr (hd (filter (interactive h) (drop i its))))"
proof (induction "length its - i" arbitrary: i)
  case 0
  then show ?case by simp
next
  case (Suc k)
  have d: "drop i its = its ! i # drop (Suc i) its"
    using Suc.prems(1) by (simp add: Cons_nth_drop_Suc)
  show ?case
  proof (cases "interactive h (its ! i)")
    case True
    then show ?thesis using Suc.prems(1) by (simp add: findNewItem_in_range d)
  next
    case False
    with Suc.prems(2) d have ne: "filter (interactive h) (drop (Suc i) its) \<noteq> []" by simp
    then have lt: "Suc i < length its" by (cases "Suc i < length its") auto
    have k: "k = length its - Suc i" using Suc.hyps(2) by simp
    have e: "int i + 1 = int (Suc i)" by simp
    have "findNewItem h its 1 (int i) = findNewItem h its 1 (int (Suc i))"
      using Suc.prems(1) False by (simp only: findNewItem_in_range e if_False)
    also have "\<dots> = Some (Inr (hd (filter (interactive h) (drop (Suc i) its))))"
      by (rule Suc.hyps(1) [OF k lt ne])
    finally show ?thesis using False by (simp add: d)
  qed
qed

lemma find_forward_wrap:
  "filter (interactive h) its \<noteq> [] \<Longrightarrow> i \<le> length its \<Longrightarrow>
   filter (interactive h) (drop i its) = [] \<Longrightarrow>
   findNewItem h its 1 (int i) = Some (Inr (hd (filter (interactive h) its)))"
proof (induction "length its - i" arbitrary: i)
  case 0
  then have i: "i = length its" by simp
  from 0 have pos: "0 < length its" by (cases its) auto
  have w: "wrapIndex (int (length its)) (int (length its)) = int 0"
    using pos by (simp add: wrapIndex_def)
  have "findNewItem h its 1 (int i) = findNewItem h its 1 (int 0)"
    unfolding i using findNewItem_wrap [of h its 1 "int (length its)"] by (simp only: w)
  also have "\<dots> = Some (Inr (hd (filter (interactive h) (drop 0 its))))"
    using pos 0(2) by (intro find_forward_hit) simp_all
  finally show ?case by simp
next
  case (Suc k)
  then have lt: "i < length its" by simp
  have d: "drop i its = its ! i # drop (Suc i) its"
    using lt by (simp add: Cons_nth_drop_Suc)
  from Suc.prems(3) d have sep: "\<not> interactive h (its ! i)"
    and rest: "filter (interactive h) (drop (Suc i) its) = []"
    by (auto split: if_splits)
  have k: "k = length its - Suc i" using Suc.hyps(2) by simp
  have e: "int i + 1 = int (Suc i)" by simp
  have "findNewItem h its 1 (int i) = findNewItem h its 1 (int (Suc i))"
    using lt sep by (simp only: findNewItem_in_range e if_False)
  also have "\<dots> = Some (Inr (hd (filter (interactive h) its)))"
    using lt by (intro Suc.hyps(1) [OF k Suc.prems(1) _ rest]) simp
  finally show ?case .
qed

lemma find_forward:
  assumes "filter (interactive h) its \<noteq> []" "i \<le> length its"
  shows "findNewItem h its 1 (int i) = Some (Inr (hd (filter (interactive h) (drop i its @ its))))"
proof (cases "filter (interactive h) (drop i its) = []")
  case True
  then show ?thesis using find_forward_wrap [OF assms True] by simp
next
  case False
  then have "i < length its" by (cases "i < length its") auto
  then show ?thesis using find_forward_hit [OF _ False] False by simp
qed

lemma find_backward_hit:
  "i < length its \<Longrightarrow> filter (interactive h) (take (Suc i) its) \<noteq> [] \<Longrightarrow>
   findNewItem h its (- 1) (int i) = Some (Inr (last (filter (interactive h) (take (Suc i) its))))"
proof (induction i)
  case 0
  then have t: "take (Suc 0) its = [its ! 0]" by (cases its) auto
  with 0 have "interactive h (its ! 0)" by (auto split: if_splits)
  then show ?case using 0(1) findNewItem_in_range [of 0 its h "- 1"] by (simp add: t)
next
  case (Suc i)
  have t: "take (Suc (Suc i)) its = take (Suc i) its @ [its ! Suc i]"
    using Suc.prems(1) by (simp add: take_Suc_conv_app_nth)
  show ?case
  proof (cases "interactive h (its ! Suc i)")
    case True
    have "findNewItem h its (- 1) (int (Suc i)) = Some (Inr (its ! Suc i))"
      using Suc.prems(1) True by (simp only: findNewItem_in_range if_True)
    then show ?thesis using True by (simp add: t)
  next
    case False
    with Suc.prems(2) t have ne: "filter (interactive h) (take (Suc i) its) \<noteq> []" by simp
    have e: "int (Suc i) + - 1 = int i" by simp
    have "findNewItem h its (- 1) (int (Suc i)) = findNewItem h its (- 1) (int i)"
      using Suc.prems(1) False by (simp only: findNewItem_in_range e if_False)
    also have "\<dots> = Some (Inr (last (filter (interactive h) (take (Suc i) its))))"
      using Suc.prems(1) ne by (intro Suc.IH) simp_all
    finally show ?thesis using False by (simp add: t)
  qed
qed

lemma find_backward_neg:
  assumes "filter (interactive h) its \<noteq> []" "x < 0"
  shows "findNewItem h its (- 1) x = Some (Inr (last (filter (interactive h) its)))"
proof -
  from assms(1) have pos: "0 < length its" by (cases its) auto
  have w: "wrapIndex (int (length its)) x = int (length its - 1)"
    using pos assms(2) by (cases its) (simp_all add: wrapIndex_def)
  have "findNewItem h its (- 1) x = findNewItem h its (- 1) (int (length its - 1))"
    using findNewItem_wrap [of h its "- 1" x] by (simp only: w)
  also have "\<dots> = Some (Inr (last (filter (interactive h) (take (Suc (length its - 1)) its))))"
    using pos assms(1) by (intro find_backward_hit) simp_all
  finally show ?thesis using pos by simp
qed

lemma find_backward_wrap:
  "filter (interactive h) its \<noteq> [] \<Longrightarrow> i < length its \<Longrightarrow>
   filter (interactive h) (take (Suc i) its) = [] \<Longrightarrow>
   findNewItem h its (- 1) (int i) = Some (Inr (last (filter (interactive h) its)))"
proof (induction i)
  case 0
  then have t: "take (Suc 0) its = [its ! 0]" by (cases its) auto
  with 0 have sep: "\<not> interactive h (its ! 0)" by (auto split: if_splits)
  have e: "int 0 + - 1 = - 1" by simp
  have "findNewItem h its (- 1) (int 0) = findNewItem h its (- 1) (- 1)"
    using 0(2) sep by (simp only: findNewItem_in_range e if_False)
  also have "\<dots> = Some (Inr (last (filter (interactive h) its)))"
    using 0(1) by (intro find_backward_neg) simp_all
  finally show ?case .
next
  case (Suc i)
  have t: "take (Suc (Suc i)) its = take (Suc i) its @ [its ! Suc i]"
    using Suc.prems(2) by (simp add: take_Suc_conv_app_nth)
  from Suc.prems(3) t have sep: "\<not> interactive h (its ! Suc i)"
    and rest: "filter (interactive h) (take (Suc i) its) = []"
    by (auto split: if_splits)
  have e: "int (Suc i) + - 1 = int i" by simp
  have "findNewItem h its (- 1) (int (Suc i)) = findNewItem h its (- 1) (int i)"
    using Suc.prems(2) sep by (simp only: findNewItem_in_range e if_False)
  also have "\<dots> = Some (Inr (last (filter (interactive h) its)))"
    using Suc.prems(1,2) rest by (intro Suc.IH) simp_all
  finally show ?case .
qed

lemma find_backward:
  assumes "filter (interactive h) its \<noteq> []" "i < length its"
  shows "findNewItem h its (- 1) (int i) =
     Some (Inr (last (filter (interactive h) (its @ take (Suc i) its))))"
proof (cases "filter (interactive h) (take (Suc i) its) = []")
  case True
  then show ?thesis using find_backward_wrap [OF assms True] by simp
next
  case False
  then show ?thesis using find_backward_hit [OF assms(2) False] by simp
qed

lemma findNewItem_partial:
  assumes "findNewItem h its dir x = Some y"
  shows "its = [] \<or> (\<exists>r \<in> set its. interactive h r)"
proof (rule findNewItem.raw_induct
    [where P = "\<lambda>h its dir x y. its = [] \<or> (\<exists>r \<in> set its. interactive h r)", OF _ assms])
  fix f :: "(menu_item_ref \<Rightarrow> menu_item) \<Rightarrow> menu_item_ref list \<Rightarrow> int \<Rightarrow> int \<Rightarrow> (error + menu_item_ref) option"
    and h its dir x y
  assume IH: "\<And>h its dir x y. f h its dir x = Some y \<Longrightarrow> its = [] \<or> (\<exists>r \<in> set its. interactive h r)"
  assume body: "(if wrapIndex (int (length its)) x < 0 \<or> int (length its) \<le> wrapIndex (int (length its)) x
      then Some (Inl TypeError)
      else if itemType (h (its ! nat (wrapIndex (int (length its)) x))) = Separator
      then f h its dir (wrapIndex (int (length its)) x + dir)
      else Some (Inr (its ! nat (wrapIndex (int (length its)) x)))) = Some y"
  show "its = [] \<or> (\<exists>r \<in> set its. interactive h r)"
  proof (cases "wrapIndex (int (length its)) x < 0 \<or> int (length its) \<le> wrapIndex (int (length its)) x")
    case True
    then show ?thesis by (cases its) (auto simp: wrapIndex_def split: if_splits)
  next
    case False
    then have r: "nat (wrapIndex (int (length its)) x) < length its" by auto
    show ?thesis
    proof (cases "itemType (h (its ! nat (wrapIndex (int (length its)) x))) = Separator")
      case True
      with False body have "f h its dir (wrapIndex (int (length its)) x + dir) = Some y"
        by simp
      then show ?thesis by (rule IH)
    next
      case sepF: False
      then show ?thesis using nth_mem [OF r] by (auto simp: interactive_def)
    qed
  qed
qed

lemma findNewItem_total:
  assumes ne: "filter (interactive h) its \<noteq> []" and dir: "dir = 1 \<or> dir = - 1"
  shows "\<exists>r. findNewItem h its dir x = Some (Inr r) \<and> r \<in> set its \<and> interactive h r"
proof -
  from ne have pos: "0 < length its" by (cases its) auto
  define i where "i = nat (wrapIndex (int (length its)) x)"
  have i: "i < length its" "wrapIndex (int (length its)) x = int i"
    using pos by (cases its; auto simp: i_def wrapIndex_def)+
  have w: "findNewItem h its dir x = findNewItem h its dir (int i)"
    using findNewItem_wrap [of h its dir x] by (simp only: i(2))
  from dir show ?thesis
  proof
    assume d: "dir = 1"
    let ?r = "hd (filter (interactive h) (drop i its @ its))"
    have "filter (interactive h) (drop i its @ its) \<noteq> []" using ne by simp
    then have "?r \<in> set (filter (interactive h) (drop i its @ its))" by (rule hd_in_set)
    then have "?r \<in> set its \<and> interactive h ?r" by (auto dest: in_set_dropD)
    moreover have "findNewItem h its dir x = Some (Inr ?r)"
      using w find_forward [OF ne, of i] i(1) unfolding d by simp
    ultimately show ?thesis by blast
  next
    assume d: "dir = - 1"
    let ?r = "last (filter (interactive h) (its @ take (Suc i) its))"
    have "filter (interactive h) (its @ take (Suc i) its) \<noteq> []" using ne by simp
    then have "?r \<in> set (filter (interactive h) (its @ take (Suc i) its))" by (rule last_in_set)
    then have "?r \<in> set its \<and> interactive h ?r" by (auto dest: in_set_takeD)
    moreover have "findNewItem h its dir x = Some (Inr ?r)"
      using w find_backward [OF ne i(1)] unfolding d by simp
    ultimately show ?thesis by blast
  qed
qed

lemma findNewItem_diverges:
  assumes "its \<noteq> []" "\<forall>r \<in> set its. \<not> interactive h r"
  shows "findNewItem h its dir x = None"
proof (cases "findNewItem h its dir x")
  case None
  then show ?thesis .
next
  case (Some y)
  from findNewItem_partial [OF Some] assms show ?thesis by blast
qed

lemma start_not_found_down:
  assumes ne: "filter (interactive h) its \<noteq> []"
  shows "findNewItem h its 1 (- 1 + 1) = Some (Inr (hd (filter (interactive h) its)))"
    and "findNewItem h its 1 (int (length its) + 1) = Some (Inr (hd (filter (interactive h) its)))"
proof -
  from ne have pos: "0 < length its" by (cases its) auto
  have z: "findNewItem h its 1 (int 0) = Some (Inr (hd (filter (interactive h) its)))"
    using find_forward [OF ne, of 0] ne by simp
  then show "findNewItem h its 1 (- 1 + 1) = Some (Inr (hd (filter (interactive h) its)))" by simp
  have w: "wrapIndex (int (length its)) (int (length its) + 1) = int 0"
    using pos by (simp add: wrapIndex_def)
  have "findNewItem h its 1 (int (length its) + 1) = findNewItem h its 1 (int 0)"
    using findNewItem_wrap [of h its 1 "int (length its) + 1"] by (simp only: w)
  then show "findNewItem h its 1 (int (length its) + 1) = Some (Inr (hd (filter (interactive h) its)))"
    by (simp only: z)
qed

lemma start_not_found_up:
  assumes ne: "filter (interactive h) its \<noteq> []"
  shows "findNewItem h its (- 1) (- 1 + - 1) = Some (Inr (last (filter (interactive h) its)))"
    and "findNewItem h its (- 1) (int (length its) + - 1) = Some (Inr (last (filter (interactive h) its)))"
proof -
  from ne have pos: "0 < length its" by (cases its) auto
  show "findNewItem h its (- 1) (- 1 + - 1) = Some (Inr (last (filter (interactive h) its)))"
    by (rule find_backward_neg [OF ne]) simp
  have e: "int (length its) + - 1 = int (length its - 1)" using pos by (cases its) simp_all
  have "findNewItem h its (- 1) (int (length its - 1)) =
      Some (Inr (last (filter (interactive h) (its @ take (Suc (length its - 1)) its))))"
    using pos by (intro find_backward [OF ne]) simp
  then show "findNewItem h its (- 1) (int (length its) + - 1) = Some (Inr (last (filter (interactive h) its)))"
    using pos ne by (simp only: e) simp
qed

lemma start_found_down:
  assumes ne: "filter (interactive h) its \<noteq> []" and a: "a \<in> set its"
  shows "findNewItem h its 1 (indexOf its a + 1) =
     Some (Inr (hd (filter (interactive h) (tl (dropWhile (\<lambda>x. x \<noteq> a) its) @ its))))"
proof -
  from split_list_first [OF a] obtain pre post where
    its: "its = pre @ a # post" and n: "a \<notin> set pre" by blast
  have tw: "takeWhile (\<lambda>x. x \<noteq> a) its = pre"
    unfolding its using n by (rule takeWhile_first)
  have dw: "dropWhile (\<lambda>x. x \<noteq> a) its = a # post"
    unfolding its using n by (rule dropWhile_first)
  have e: "indexOf its a + 1 = int (Suc (length pre))"
    by (simp add: indexOf_in [OF a] tw)
  have d: "tl (dropWhile (\<lambda>x. x \<noteq> a) its) = drop (Suc (length pre)) its"
    unfolding dw by (simp add: its)
  have l: "Suc (length pre) \<le> length its" by (simp add: its)
  show ?thesis
    unfolding e d by (rule find_forward [OF ne l])
qed

lemma start_found_up:
  assumes ne: "filter (interactive h) its \<noteq> []" and a: "a \<in> set its"
  shows "findNewItem h its (- 1) (indexOf its a + - 1) =
     Some (Inr (last (filter (interactive h) (its @ takeWhile (\<lambda>x. x \<noteq> a) its))))"
proof -
  from split_list_first [OF a] obtain pre post where
    its: "its = pre @ a # post" and n: "a \<notin> set pre" by blast
  have tw: "takeWhile (\<lambda>x. x \<noteq> a) its = pre"
    unfolding its using n by (rule takeWhile_first)
  have ix: "indexOf its a = int (length pre)"
    by (simp add: indexOf_in [OF a] tw)
  show ?thesis
  proof (cases pre)
    case Nil
    then have e: "indexOf its a + - 1 = - 1" by (simp add: ix)
    have "findNewItem h its (- 1) (- 1) = Some (Inr (last (filter (interactive h) its)))"
      by (rule find_backward_neg [OF ne]) simp
    then show ?thesis unfolding e tw using Nil by simp
  next
    case (Cons p ps)
    then have e: "indexOf its a + - 1 = int (length ps)" by (simp add: ix)
    have k: "length ps < length its" by (simp add: its Cons)
    have t: "take (Suc (length ps)) its = pre" by (simp add: its Cons)
    show ?thesis
      unfolding e tw using find_backward [OF ne k] by (simp only: t)
  qed
qed

lemma indexOf_found_ne: "a \<in> set its \<Longrightarrow> indexOf its a \<noteq> - 1"
  by (simp add: indexOf_minus1_iff)

lemma arrowKey_down:
  assumes ne: "filter (interactive (itemHeap m)) (get_or (items m) []) \<noteq> []"
  shows "arrowKey m 40 =
     Some (handleItemFocus m (next_interactive (itemHeap m) (get_or (items m) []) (activeItem m)))"
proof (cases "activeItem m")
  case None
  then show ?thesis
    using start_not_found_down [OF ne]
    by (simp add: arrowKey_def Let_def next_interactive_def)
next
  case (Some a)
  show ?thesis
  proof (cases "a \<in> set (get_or (items m) [])")
    case True
    then show ?thesis
      using start_found_down [OF ne True] Some indexOf_found_ne [OF True]
      by (simp add: arrowKey_def Let_def next_interactive_def)
  next
    case False
    then have i: "indexOf (get_or (items m) []) a = - 1" by (simp add: indexOf_minus1_iff)
    have d: "dropWhile (\<lambda>x. x \<noteq> a) (get_or (items m) []) = []" using False by auto
    show ?thesis
      using start_not_found_down [OF ne] Some
      by (simp add: arrowKey_def Let_def next_interactive_def i d)
  qed
qed

lemma arrowKey_up:
  assumes ne: "filter (interactive (itemHeap m)) (get_or (items m) []) \<noteq> []"
  shows "arrowKey m 38 =
     Some (handleItemFocus m (prev_interactive (itemHeap m) (get_or (items m) []) (activeItem m)))"
proof (cases "activeItem m")
  case None
  then show ?thesis
    using start_not_found_up [OF ne]
    by (simp add: arrowKey_def Let_def prev_interactive_def)
next
  case (Some a)
  show ?thesis
  proof (cases "a \<in> set (get_or (items m) [])")
    case True
    then show ?thesis
      using start_found_up [OF ne True] Some indexOf_found_ne [OF True]
      by (simp add: arrowKey_def Let_def prev_interactive_def)
  next
    case False
    then have i: "indexOf (get_or (items m) []) a = - 1" by (simp add: indexOf_minus1_iff)
    have d: "takeWhile (\<lambda>x. x \<noteq> a) (get_or (items m) []) = get_or (items m) []" using False by auto
    show ?thesis
      using start_not_found_up [OF ne] Some ne
      by (simp add: arrowKey_def Let_def prev_interactive_def i d)
  qed
qed

lemma arrowKey_diverges:
  assumes "get_or (items m) [] \<noteq> []" "\<forall>r \<in> set (get_or (items m) []). \<not> interactive (itemHeap m) r"
  shows "arrowKey m k = None"
  by (simp add: arrowKey_def Let_def findNewItem_diverges [OF assms])

lemma handleItemFocus_frame:
  "items (snd (handleItemFocus m r)) = items m"
  "itemHeap (snd (handleItemFocus m r)) = itemHeap m"
  "valign (snd (handleItemFocus m r)) = valign m"
  "exporting (snd (handleItemFocus m r)) = exporting m"
  "isOpen (snd (handleItemFocus m r)) = isOpen m"
  by (auto simp: handleItemFocus_def setClassName_def Let_def split: option.splits sum.splits)

lemma handleItemFocus_active:
  "active_rendered m \<Longrightarrow> activeItem (snd (handleItemFocus m r)) = Some r"
  by (auto simp: handleItemFocus_def setClassName_def Let_def active_rendered_def
      split: option.splits sum.splits)

lemma handleItemFocus_normal:
  "active_rendered m \<Longrightarrow> element (itemHeap m r) \<noteq> None \<Longrightarrow> fst (handleItemFocus m r) = Normal"
  by (auto simp: handleItemFocus_def setClassName_def Let_def active_rendered_def
      split: option.splits sum.splits)

lemma handleItemFocus_stuck:
  "activeItem m = Some a \<Longrightarrow> a \<noteq> r \<Longrightarrow> element (itemHeap m a) = None \<Longrightarrow>
   handleItemFocus m r = (Thrown TypeError, m)"
  by (auto simp: handleItemFocus_def setClassName_def Let_def split: option.splits sum.splits)

lemma keydown_arrow: "keydown m True 40 = arrowKey m 40" "keydown m True 38 = arrowKey m 38"
  by (simp_all add: keydown_def)

text \<open>
  C7. For an item list that contains an interactive item, the search loop returns, from
  any starting index and in either direction, with an interactive item of the list. For
  a non-empty list of separators only it does not return, and neither does the handler of
  the arrow keys.
\<close>

theorem search_loop_termination:
  "((\<exists>r \<in> set its. itemType (h r) \<noteq> Separator) \<and> (dir = 1 \<or> dir = - 1) \<longrightarrow>
      (\<exists>r. findNewItem h its dir x = Some (Inr r) \<and> r \<in> set its \<and> itemType (h r) \<noteq> Separator)) \<and>
   (its \<noteq> [] \<and> (\<forall>r \<in> set its. itemType (h r) = Separator) \<longrightarrow> findNewItem h its dir x = None) \<and>
   (get_or (items m) [] \<noteq> [] \<and> (\<forall>r \<in> set (get_or (items m) []). itemType (itemHeap m r) = Separator) \<longrightarrow>
      arrowKey m key = None)"
proof (intro conjI impI)
  assume a: "(\<exists>r \<in> set its. itemType (h r) \<noteq> Separator) \<and> (dir = 1 \<or> dir = - 1)"
  then have "filter (interactive h) its \<noteq> []"
    by (auto simp: filter_empty_conv interactive_def)
  from findNewItem_total [OF this, of dir x] a
  show "\<exists>r. findNewItem h its dir x = Some (Inr r) \<and> r \<in> set its \<and> itemType (h r) \<noteq> Separator"
    by (simp add: interactive_def)
next
  assume "its \<noteq> [] \<and> (\<forall>r \<in> set its. itemType (h r) = Separator)"
  then show "findNewItem h its dir x = None"
    by (intro findNewItem_diverges) (simp_all add: interactive_def)
next
  assume "get_or (items m) [] \<noteq> [] \<and> (\<forall>r \<in> set (get_or (items m) []). itemType (itemHeap m r) = Separator)"
  then show "arrowKey m key = None"
    by (intro arrowKey_diverges) (simp_all add: interactive_def)
qed

section \<open>Rendering the items\<close>

lemma skipped_iff: "skipped ex item \<longleftrightarrow> \<not> supported ex item"
  by (auto simp: skipped_def supported_def indexOf_minus1_iff split: option.splits)

lemma cfg_simps:
  "skipped ex (x\<lparr>element := e\<rparr>) = skipped ex x"
  "li_class (x\<lparr>element := e\<rparr>) = li_class x"
  "item_anchor tr tab r (x\<lparr>element := e\<rparr>) = item_anchor tr tab r x"
  "itemType (x\<lparr>element := e\<rparr>) = itemType x"
  by (simp_all add: skipped_def li_class_def item_anchor_def Let_def split: option.splits)

lemma same_config_refl: "same_config h h"
  by (simp add: same_config_def)

lemma same_config_trans: "same_config h h' \<Longrightarrow> same_config h' h'' \<Longrightarrow> same_config h h''"
  by (simp add: same_config_def)

lemma same_config_reads:
  assumes "same_config h h'"
  shows "skipped ex (h' q) = skipped ex (h q)" "li_class (h' q) = li_class (h q)"
    "item_anchor tr tab r (h' q) = item_anchor tr tab r (h q)" "itemType (h' q) = itemType (h q)"
proof -
  from assms have e: "(h' q)\<lparr>element := None\<rparr> = (h q)\<lparr>element := None\<rparr>"
    by (simp add: same_config_def)
  show "skipped ex (h' q) = skipped ex (h q)"
    using arg_cong [OF e, of "skipped ex"] by (simp only: cfg_simps)
  show "li_class (h' q) = li_class (h q)"
    using arg_cong [OF e, of li_class] by (simp only: cfg_simps)
  show "item_anchor tr tab r (h' q) = item_anchor tr tab r (h q)"
    using arg_cong [OF e, of "item_anchor tr tab r"] by (simp only: cfg_simps)
  show "itemType (h' q) = itemType (h q)"
    using arg_cong [OF e, of itemType] by (simp only: cfg_simps)
qed

lemma createItem_frame:
  "translate (createItem ex m r) = translate m" "tabindex (createItem ex m r) = tabindex m"
  "items (createItem ex m r) = items m" "activeItem (createItem ex m r) = activeItem m"
  "valign (createItem ex m r) = valign m" "exporting (createItem ex m r) = exporting m"
  "effects (createItem ex m r) = effects m" "isOpen (createItem ex m r) = isOpen m"
  by (simp_all add: createItem_def Let_def)

lemma fold_createItem_frame:
  "translate (foldl (createItem ex) m rs) = translate m"
  "tabindex (foldl (createItem ex) m rs) = tabindex m"
  "items (foldl (createItem ex) m rs) = items m"
  "activeItem (foldl (createItem ex) m rs) = activeItem m"
  "valign (foldl (createItem ex) m rs) = valign m"
  "exporting (foldl (createItem ex) m rs) = exporting m"
  "effects (foldl (createItem ex) m rs) = effects m"
  "isOpen (foldl (createItem ex) m rs) = isOpen m"
  by (induction rs arbitrary: m) (simp_all add: createItem_frame)

lemma createItem_config: "same_config (itemHeap m) (itemHeap (createItem ex m r))"
  by (simp add: same_config_def createItem_def Let_def)

lemma fold_createItem_config: "same_config (itemHeap m) (itemHeap (foldl (createItem ex) m rs))"
proof (induction rs arbitrary: m)
  case Nil
  show ?case by (simp add: same_config_refl)
next
  case (Cons r rs)
  show ?case
    using same_config_trans [OF createItem_config [of m ex r] Cons [of "createItem ex m r"]] by simp
qed

lemma createItem_fields:
  "nextAnchor (createItem ex M r) = (if skipped ex (itemHeap M r) then nextAnchor M else Suc (nextAnchor M))"
  "itemElements (createItem ex M r) =
     (if skipped ex (itemHeap M r) then itemElements M
      else itemElements M @ [\<lparr>li_role = ''menuitem'', li_className = li_class (itemHeap M r), li_child = nextAnchor M\<rparr>])"
  "listElement (createItem ex M r) =
     (if skipped ex (itemHeap M r) then listElement M
      else listElement M @ [\<lparr>li_role = ''menuitem'', li_className = li_class (itemHeap M r), li_child = nextAnchor M\<rparr>])"
  "element (itemHeap (createItem ex M r) q) =
     (if q = r \<and> \<not> skipped ex (itemHeap M r) then Some (nextAnchor M) else element (itemHeap M q))"
  "anchorHeap (createItem ex M r) a =
     (if a = nextAnchor M \<and> \<not> skipped ex (itemHeap M r)
      then item_anchor (translate M) (tabindex M) r (itemHeap M r) else anchorHeap M a)"
  by (simp_all add: createItem_def Let_def)

lemma fold_createItem_elements:
  "nextAnchor (foldl (createItem ex) m rs) =
     nextAnchor m + length (filter (\<lambda>r. \<not> skipped ex (itemHeap m r)) rs)"
  "itemElements (foldl (createItem ex) m rs) = itemElements m @
     map (\<lambda>(a, r). \<lparr>li_role = ''menuitem'', li_className = li_class (itemHeap m r), li_child = a\<rparr>)
       (enumerate (nextAnchor m) (filter (\<lambda>r. \<not> skipped ex (itemHeap m r)) rs))"
  "listElement (foldl (createItem ex) m rs) = listElement m @
     map (\<lambda>(a, r). \<lparr>li_role = ''menuitem'', li_className = li_class (itemHeap m r), li_child = a\<rparr>)
       (enumerate (nextAnchor m) (filter (\<lambda>r. \<not> skipped ex (itemHeap m r)) rs))"
proof (induction rs rule: rev_induct)
  case Nil
  { case 1 show ?case by simp next
    case 2 show ?case by simp next
    case 3 show ?case by simp }
next
  case (snoc r rs)
  note cfg = same_config_reads [OF fold_createItem_config [of m ex rs]]
  { case 1 show ?case by (simp add: createItem_fields cfg snoc(1)) next
    case 2 show ?case by (simp add: createItem_fields cfg snoc(1,2) enumerate_append_eq) next
    case 3 show ?case by (simp add: createItem_fields cfg snoc(1,3) enumerate_append_eq) }
qed

lemma fold_createItem_element:
  "skipped ex (itemHeap m q) \<or> q \<notin> set rs \<Longrightarrow>
     element (itemHeap (foldl (createItem ex) m rs) q) = element (itemHeap m q)"
  "q \<in> set rs \<Longrightarrow> \<not> skipped ex (itemHeap m q) \<Longrightarrow>
     element (itemHeap (foldl (createItem ex) m rs) q) \<noteq> None"
  "element (itemHeap m q) \<noteq> None \<Longrightarrow> element (itemHeap (foldl (createItem ex) m rs) q) \<noteq> None"
proof (induction rs rule: rev_induct)
  case Nil
  { case 1 show ?case by simp next
    case 2 then show ?case by simp next
    case 3 then show ?case by simp }
next
  case (snoc r rs)
  note cfg = same_config_reads [OF fold_createItem_config [of m ex rs]]
  { case 1 then show ?case using snoc(1) by (auto simp: createItem_fields cfg) next
    case 2 then show ?case using snoc(2) by (auto simp: createItem_fields cfg) next
    case 3 then show ?case using snoc(3) by (auto simp: createItem_fields cfg) }
qed

lemma fold_createItem_anchors:
  "k < length (filter (\<lambda>r. \<not> skipped ex (itemHeap m r)) rs) \<Longrightarrow>
   anchorHeap (foldl (createItem ex) m rs) (nextAnchor m + k) =
     item_anchor (translate m) (tabindex m) (filter (\<lambda>r. \<not> skipped ex (itemHeap m r)) rs ! k)
       (itemHeap m (filter (\<lambda>r. \<not> skipped ex (itemHeap m r)) rs ! k))"
proof (induction rs arbitrary: k rule: rev_induct)
  case Nil
  then show ?case by simp
next
  case (snoc r rs)
  note cfg = same_config_reads [OF fold_createItem_config [of m ex rs]]
  let ?sh = "filter (\<lambda>r. \<not> skipped ex (itemHeap m r)) rs"
  show ?case
  proof (cases "skipped ex (itemHeap m r)")
    case True
    then show ?thesis using snoc by (simp add: createItem_fields cfg)
  next
    case False
    show ?thesis
    proof (cases "k < length ?sh")
      case True
      then show ?thesis
        using snoc.IH [OF True] False
        by (simp add: createItem_fields cfg fold_createItem_elements(1) nth_append)
    next
      case kF: False
      with snoc.prems False have "k = length ?sh" by simp
      then show ?thesis
        using False
        by (simp add: createItem_fields cfg fold_createItem_elements(1) fold_createItem_frame nth_append)
    qed
  qed
qed

lemma createItems_some:
  "exporting m = Some ex \<Longrightarrow>
   createItems m = foldl (createItem ex) (m\<lparr>listElement := [], itemElements := []\<rparr>) (get_or (items m) [])"
  by (simp add: createItems_def)

lemma createItems_frame:
  "items (createItems m) = items m" "activeItem (createItems m) = activeItem m"
  "valign (createItems m) = valign m" "exporting (createItems m) = exporting m"
  "same_config (itemHeap m) (itemHeap (createItems m))"
proof -
  show "items (createItems m) = items m" "activeItem (createItems m) = activeItem m"
    "valign (createItems m) = valign m" "exporting (createItems m) = exporting m"
    by (cases "exporting m"; simp add: createItems_def fold_createItem_frame)+
  show "same_config (itemHeap m) (itemHeap (createItems m))"
  proof (cases "exporting m")
    case None
    then show ?thesis by (simp add: createItems_def same_config_refl)
  next
    case (Some ex)
    show ?thesis
      using fold_createItem_config [of "m\<lparr>listElement := [], itemElements := []\<rparr>" ex "get_or (items m) []"]
      by (simp add: createItems_some [OF Some])
  qed
qed

lemma createItems_element:
  assumes "exporting m = Some ex"
  shows "\<not> supported ex (itemHeap m q) \<or> q \<notin> set (get_or (items m) []) \<Longrightarrow>
           element (itemHeap (createItems m) q) = element (itemHeap m q)"
    and "q \<in> set (get_or (items m) []) \<Longrightarrow> supported ex (itemHeap m q) \<Longrightarrow>
           element (itemHeap (createItems m) q) \<noteq> None"
    and "element (itemHeap m q) \<noteq> None \<Longrightarrow> element (itemHeap (createItems m) q) \<noteq> None"
  using fold_createItem_element [where ex = ex and m = "m\<lparr>listElement := [], itemElements := []\<rparr>"
      and q = q and rs = "get_or (items m) []"]
  by (simp_all add: createItems_some [OF assms] skipped_iff)



lemma handleItemFocus_unrendered:
  assumes "active_rendered m" "element (itemHeap m r) = None"
  shows "fst (handleItemFocus m r) = Thrown TypeError" "activeItem (snd (handleItemFocus m r)) = Some r"
  using assms
  by (auto simp: handleItemFocus_def setClassName_def Let_def active_rendered_def
      split: option.splits sum.splits)

lemma createItems_rendered:
  assumes ex: "exporting m = Some ex"
    and its: "its = get_or (items m) []"
    and sh: "shown = filter (\<lambda>r. supported ex (itemHeap m r)) its"
  shows "itemElements (createItems m) =
       map (\<lambda>(a, r). \<lparr>li_role = ''menuitem'', li_className = li_class (itemHeap m r), li_child = a\<rparr>)
         (enumerate (nextAnchor m) shown) \<and>
     listElement (createItems m) = itemElements (createItems m) \<and>
     (\<forall>k < length shown. anchorHeap (createItems m) (nextAnchor m + k) =
        item_anchor (translate m) (tabindex m) (shown ! k) (itemHeap m (shown ! k))) \<and>
     (\<forall>r \<in> set shown. element (itemHeap (createItems m) r) \<noteq> None) \<and>
     (\<forall>r. r \<notin> set shown \<longrightarrow> element (itemHeap (createItems m) r) = element (itemHeap m r))"
proof -
  let ?m0 = "m\<lparr>listElement := [], itemElements := []\<rparr>"
  have sh': "shown = filter (\<lambda>r. \<not> skipped ex (itemHeap ?m0 r)) its"
    by (simp add: sh skipped_iff)
  have c: "createItems m = foldl (createItem ex) ?m0 its"
    by (simp add: createItems_some [OF ex] its)
  have 1: "itemElements (createItems m) =
       map (\<lambda>(a, r). \<lparr>li_role = ''menuitem'', li_className = li_class (itemHeap m r), li_child = a\<rparr>)
         (enumerate (nextAnchor m) shown)"
    unfolding c sh' by (simp add: fold_createItem_elements(2))
  have 2: "listElement (createItems m) = itemElements (createItems m)"
    unfolding c by (simp add: fold_createItem_elements(2,3))
  have 3: "\<forall>k < length shown. anchorHeap (createItems m) (nextAnchor m + k) =
        item_anchor (translate m) (tabindex m) (shown ! k) (itemHeap m (shown ! k))"
    unfolding c sh' using fold_createItem_anchors [of _ ex ?m0 its] by simp
  have 4: "\<forall>r \<in> set shown. element (itemHeap (createItems m) r) \<noteq> None"
    using createItems_element(2) [OF ex] by (simp add: sh its)
  have 5: "\<forall>r. r \<notin> set shown \<longrightarrow> element (itemHeap (createItems m) r) = element (itemHeap m r)"
    using createItems_element(1) [OF ex] by (auto simp: sh its)
  from 1 2 3 4 5 show ?thesis by blast
qed


lemma allocItems_below: "q < n \<Longrightarrow> allocItems h n xs q = h q"
  by (induction xs arbitrary: h n) simp_all

lemma allocItems_heap: "k < length xs \<Longrightarrow> allocItems h n xs (n + k) = xs ! k"
proof (induction xs arbitrary: h n k)
  case Nil
  then show ?case by simp
next
  case (Cons a xs)
  show ?case
  proof (cases k)
    case 0
    then show ?thesis by (simp add: allocItems_below)
  next
    case (Suc j)
    then have "j < length xs" using Cons.prems by simp
    then have "allocItems (h(n := a)) (Suc n) xs (Suc n + j) = xs ! j"
      by (rule Cons.IH)
    moreover have "Suc n + j = n + Suc j" by simp
    ultimately have "allocItems (h(n := a)) (Suc n) xs (n + Suc j) = xs ! j"
      by (simp only:)
    then show ?thesis unfolding Suc by (simp only: allocItems.simps nth_Cons_Suc)
  qed
qed

lemma afterNew_heap:
  "q < nextItem m \<Longrightarrow> itemHeap (afterNew m) q = itemHeap m q"
  "items m = Some x \<Longrightarrow> items (afterNew m) = Some x"
  by (simp_all add: afterNew_def Let_def applyClassNames_def setRawDefault_def allocItems_below)

lemma small_menu_fields:
  "items (small_menu exo itms) = Some itms" "exporting (small_menu exo itms) = exo"
  "activeItem (small_menu exo itms) = None" "valign (small_menu exo itms) = Some ''top''"
  "autoClose (small_menu exo itms) = Some True"
  "itemHeap (small_menu exo itms) 3 = small_heap 3"
  "itemHeap (small_menu exo itms) 4 = small_heap 4"
  "itemHeap (small_menu exo itms) 5 = small_heap 5"
  by (simp_all add: small_menu_def ExportingMenu_new_def afterNew_frame afterNew_heap constructed_def
      setRawDefault_def)

lemma small_heap_types:
  "itemType (small_heap 3) = Separator" "itemType (small_heap 4) = Format"
  "itemType (small_heap 5) = Format" "element (small_heap q) = None"
  by (simp_all add: small_heap_def mk_item_def)

section \<open>The example menus\<close>


lemma noexp_fields:
  "get_or (items noexp_menu) [] = [3, 4, 5]" "activeItem noexp_menu = None"
  "exporting noexp_menu = None" "autoClose noexp_menu = Some True"
  "itemHeap noexp_menu 3 = small_heap 3" "itemHeap noexp_menu 4 = small_heap 4"
  "itemHeap noexp_menu 5 = small_heap 5"
  by (simp_all add: noexp_menu_def small_menu_fields get_or_def)

lemma noexp_press1:
  "arrowKey noexp_menu 40 = Some (Thrown TypeError, noexp_menu\<lparr>activeItem := Some 4\<rparr>)"
proof -
  have ne: "filter (interactive (itemHeap noexp_menu)) (get_or (items noexp_menu) []) \<noteq> []"
    by (simp add: noexp_fields interactive_def small_heap_types)
  have nx: "next_interactive (itemHeap noexp_menu) (get_or (items noexp_menu) []) (activeItem noexp_menu) = 4"
    by (simp add: noexp_fields next_interactive_def interactive_def small_heap_types)
  have "handleItemFocus noexp_menu 4 = (Thrown TypeError, noexp_menu\<lparr>activeItem := Some 4\<rparr>)"
    by (simp add: handleItemFocus_def setClassName_def noexp_fields small_heap_types Let_def)
  then show ?thesis using arrowKey_down [OF ne] by (simp only: nx)
qed

theorem menu_state_machine_witness:
  "\<not> isOpen noexp_menu \<and> count_list (effects noexp_menu) (Dispatch menucreated) = 1 \<and>
   isOpen (menu_open noexp_menu) \<and>
   effects (menu_close (menu_open noexp_menu)) =
     effects noexp_menu @ [Dispatch menuopened, UtilsBlur, Dispatch menuclosed] \<and>
   isOpen (menu_toggle noexp_menu) \<and> \<not> isOpen (menu_toggle (menu_toggle noexp_menu))"
proof -
  let ?st = "\<lparr>s_align = None, s_valign = None, s_items = Some [3, 4, 5], s_exporting = None,
    s_autoClose = None\<rparr>"
  have n: "noexp_menu = ExportingMenu_new (\<lambda>t. t) 0 ?st small_heap 6"
    by (simp add: noexp_menu_def small_menu_def)
  show ?thesis
    using menu_state_machine [of "\<lambda>t. t" 0 ?st small_heap 6 noexp_menu]
      menu_state_machine [of "\<lambda>t. t" 0 ?st small_heap 6 "menu_open noexp_menu"]
      menu_state_machine [of "\<lambda>t. t" 0 ?st small_heap 6 "menu_toggle noexp_menu"]
    unfolding n [symmetric] by simp
qed

text \<open>
  C4. On a menu without an exporter, building the items changes nothing and the menu
  stays empty. Handling a click there performs no export, but it does not return: it
  closes the menu and raises a TypeError, also when it is reached from the keyboard, by
  Enter on the item that Down has made active.
\<close>

theorem handleClick_without_exporter_fails:
  "exporting noexp_menu = None \<and> createItems noexp_menu = noexp_menu \<and>
   itemElements noexp_menu = [] \<and>
   handleClick noexp_menu 4 = (Thrown TypeError, menu_close noexp_menu) \<and>
   keydown noexp_menu True 40 = Some (Thrown TypeError, noexp_menu\<lparr>activeItem := Some 4\<rparr>) \<and>
   keydown (noexp_menu\<lparr>activeItem := Some 4\<rparr>) True 13 =
     Some (Thrown TypeError, menu_close (noexp_menu\<lparr>activeItem := Some 4\<rparr>))"
proof -
  have e: "itemElements noexp_menu = []"
    by (simp add: noexp_menu_def small_menu_def ExportingMenu_new_def afterNew_frame constructed_def)
  have c: "createItems noexp_menu = noexp_menu"
    by (simp add: createItems_no_exporter noexp_fields)
  have h: "handleClick noexp_menu 4 = (Thrown TypeError, menu_close noexp_menu)"
    by (simp add: handleClick_no_exporter noexp_fields)
  have k: "keydown (noexp_menu\<lparr>activeItem := Some 4\<rparr>) True 13 =
     Some (Thrown TypeError, menu_close (noexp_menu\<lparr>activeItem := Some 4\<rparr>))"
    by (simp add: keydown_def handleClick_no_exporter noexp_fields)
  show ?thesis
    by (intro conjI noexp_fields(3) c e h k) (simp add: keydown_arrow noexp_press1)
qed


theorem search_loop_termination_witness:
  "(\<exists>r. findNewItem small_heap [3, 4, 5] 1 0 = Some (Inr r) \<and> r \<in> set [3, 4, 5] \<and>
      itemType (small_heap r) \<noteq> Separator) \<and>
   findNewItem small_heap [3, 3] (- 1) 5 = None \<and>
   arrowKey (small_menu None [3]) 40 = None"
  using search_loop_termination [of "[3, 4, 5]" small_heap 1 0 "small_menu None [3]" 40]
    search_loop_termination [of "[3, 3]" small_heap "- 1" 5 "small_menu None [3]" 40]
  by (simp add: small_heap_types small_menu_fields get_or_def)


lemma default_menu_fields:
  "exporting default_menu = Some png_csv" "items default_menu = Some [0 ..< 12]"
  "k < 12 \<Longrightarrow> itemHeap default_menu k = defaultItems (\<lambda>t. t) ! k"
  "nextAnchor default_menu = 0" "translate default_menu = (\<lambda>t. t)" "tabindex default_menu = 0"
proof -
  have l: "length (defaultItems (\<lambda>t. t)) = 12" by (simp add: defaultItems_def)
  show "exporting default_menu = Some png_csv"
    by (simp add: default_menu_def ExportingMenu_new_def afterNew_frame constructed_def)
  show "items default_menu = Some [0 ..< 12]"
    by (simp add: default_menu_def ExportingMenu_new_def afterNew_def constructed_def Let_def l
        applyClassNames_def setRawDefault_def)
  show "itemHeap default_menu k = defaultItems (\<lambda>t. t) ! k" if "k < 12"
    using allocItems_heap [of k "defaultItems (\<lambda>t. t)" "\<lambda>_. mk_item Separator None None None None" 0] that
    by (simp add: default_menu_def ExportingMenu_new_def afterNew_def constructed_def Let_def l
        applyClassNames_def setRawDefault_def)
  show "nextAnchor default_menu = 0" "translate default_menu = (\<lambda>t. t)" "tabindex default_menu = 0"
    by (simp_all add: default_menu_def ExportingMenu_new_def afterNew_def constructed_def Let_def
        applyClassNames_def setRawDefault_def)
qed

lemma default_shown:
  "filter (\<lambda>r. supported png_csv (itemHeap default_menu r)) [0 ..< 12] = [0, 1, 4, 6, 10]"
  by (simp add: upt_rec default_menu_fields supported_def png_csv_def defaultItems_def mk_item_def)

lemma new_default_fields:
  assumes "s_items st = None"
  shows "items (ExportingMenu_new tr tab st h n) = Some [n ..< n + 12]"
    and "k < 12 \<Longrightarrow> itemHeap (ExportingMenu_new tr tab st h n) (n + k) = defaultItems tr ! k"
    and "exporting (ExportingMenu_new tr tab st h n) = s_exporting st"
proof -
  have l: "length (defaultItems tr) = 12" by (simp add: defaultItems_def)
  show "items (ExportingMenu_new tr tab st h n) = Some [n ..< n + 12]"
    using assms
    by (simp add: ExportingMenu_new_def afterNew_def constructed_def Let_def l
        applyClassNames_def setRawDefault_def)
  show "itemHeap (ExportingMenu_new tr tab st h n) (n + k) = defaultItems tr ! k" if "k < 12"
    using allocItems_heap [of k "defaultItems tr" h n] that
    by (simp add: ExportingMenu_new_def afterNew_def constructed_def Let_def l
        applyClassNames_def setRawDefault_def)
  show "exporting (ExportingMenu_new tr tab st h n) = s_exporting st"
    by (simp add: ExportingMenu_new_def afterNew_frame constructed_def)
qed

lemma default_items_supported:
  assumes "set (supportedFormats ex) = {PNG, CSV}" "set (supportedExportTypes ex) = {TImage, TData}"
  shows "filter (\<lambda>k. supported ex (defaultItems tr ! k)) [0 ..< 12] = [0, 1, 4, 6, 10]"
  by (simp add: upt_rec supported_def defaultItems_def mk_item_def assms)

lemma default_items_labels:
  "k < 12 \<Longrightarrow> element (defaultItems tr ! k) = None"
  by (simp add: defaultItems_def mk_item_def nth_Cons')

lemma upt_shift: "[n ..< n + m] = map (\<lambda>k. n + k) [0 ..< m]"
  using map_add_upt [of n m] by (simp add: add.commute)

lemma default_supported:
  assumes st: "s_items st = None" "s_exporting st = Some ex"
    and F: "set (supportedFormats ex) = {PNG, CSV}"
    and T: "set (supportedExportTypes ex) = {TImage, TData}"
    and M: "M = ExportingMenu_new tr tab st h n"
  shows "filter (\<lambda>r. supported ex (itemHeap M r)) (get_or (items M) []) = map (\<lambda>k. n + k) [0, 1, 4, 6, 10]"
proof -
  note f = new_default_fields [OF st(1), where tr = tr and tab = tab and h = h and n = n, folded M]
  have its: "get_or (items M) [] = map (\<lambda>k. n + k) [0 ..< 12]"
    by (simp add: f get_or_def upt_shift)
  have "filter (\<lambda>r. supported ex (itemHeap M r)) (map (\<lambda>k. n + k) [0 ..< 12]) =
      map (\<lambda>k. n + k) (filter (\<lambda>k. supported ex (itemHeap M (n + k))) [0 ..< 12])"
    by (simp add: filter_map comp_def)
  also have "filter (\<lambda>k. supported ex (itemHeap M (n + k))) [0 ..< 12] =
      filter (\<lambda>k. supported ex (defaultItems tr ! k)) [0 ..< 12]"
    by (rule filter_cong) (simp_all add: f)
  also have "\<dots> = [0, 1, 4, 6, 10]" by (rule default_items_supported [OF F T])
  finally show ?thesis
    by (simp only: its)
qed

lemma item_anchor_content:
  \<open>a_innerHTML (item_anchor tr tab r item) =
     (let base = (case label item of Some (d # ds) \<Rightarrow> Assigned (d # ds) | _ \<Rightarrow> NoChildren)
      in case sublabel item of
           Some (c # cs) \<Rightarrow> Appended base ('' <span class="am5exporting-label-alt">'' @ c # cs @ ''</span>'')
         | _ \<Rightarrow> base)\<close>
  \<open>callback item = None \<Longrightarrow> format item \<noteq> None \<Longrightarrow>
   a_ariaLabel (item_anchor tr tab r item) =
     Some (tr ''Export'' @
       (case label item of Some (d # ds) \<Rightarrow> '' '' @ d # ds | _ \<Rightarrow> []) @
       (case sublabel item of Some (c # cs) \<Rightarrow> '' ('' @ c # cs @ '')'' | _ \<Rightarrow> []))\<close>
  \<open>callback item \<noteq> None \<or> format item = None \<Longrightarrow> a_ariaLabel (item_anchor tr tab r item) = None\<close>
  by (auto simp: item_anchor_def Let_def truthy_def get_or_def split: option.splits list.splits)

lemma new_anchor_fields:
  "nextAnchor (ExportingMenu_new tr tab st h n) = 0"
  "translate (ExportingMenu_new tr tab st h n) = tr"
  "tabindex (ExportingMenu_new tr tab st h n) = tab"
  by (simp_all add: ExportingMenu_new_def afterNew_def constructed_def Let_def applyClassNames_def)

lemma default_rendered:
  assumes st: "s_items st = None" "s_exporting st = Some ex"
    and F: "set (supportedFormats ex) = {PNG, CSV}"
    and T: "set (supportedExportTypes ex) = {TImage, TData}"
    and M: "M = createItems (ExportingMenu_new tr tab st h n)"
  shows "map li_className (itemElements M) =
       [''am5exporting am5exporting-item am5exporting-type-separator'',
        ''am5exporting am5exporting-item am5exporting-type-format am5exporting-format-png'',
        ''am5exporting am5exporting-item am5exporting-type-separator'',
        ''am5exporting am5exporting-item am5exporting-type-format am5exporting-format-csv'',
        ''am5exporting am5exporting-item am5exporting-type-separator'']"
    and \<open>tr ''Export'' \<noteq> [] \<and> tr ''PNG'' \<noteq> [] \<and> tr ''CSV'' \<noteq> [] \<and> tr ''Image'' \<noteq> [] \<and> tr ''Data'' \<noteq> [] \<Longrightarrow>
       map (\<lambda>e. a_innerHTML (anchorHeap M (li_child e))) (itemElements M) =
         [Assigned (tr ''Export''),
          Appended (Assigned (tr ''PNG'')) ('' <span class="am5exporting-label-alt">'' @ tr ''Image'' @ ''</span>''),
          NoChildren,
          Appended (Assigned (tr ''CSV'')) ('' <span class="am5exporting-label-alt">'' @ tr ''Data'' @ ''</span>''),
          NoChildren]\<close>
    and "tr ''Export'' \<noteq> [] \<and> tr ''PNG'' \<noteq> [] \<and> tr ''CSV'' \<noteq> [] \<and> tr ''Image'' \<noteq> [] \<and> tr ''Data'' \<noteq> [] \<Longrightarrow>
       map (\<lambda>e. a_ariaLabel (anchorHeap M (li_child e))) (itemElements M) =
         [None, Some (tr ''Export'' @ '' '' @ tr ''PNG'' @ '' ('' @ tr ''Image'' @ '')''), None,
          Some (tr ''Export'' @ '' '' @ tr ''CSV'' @ '' ('' @ tr ''Data'' @ '')''), None]"
proof -
  let ?N = "ExportingMenu_new tr tab st h n"
  let ?shown = "map (\<lambda>k. n + k) [0, 1, 4, 6, 10]"
  note f = new_default_fields [OF st(1), where tr = tr and tab = tab and h = h and n = n]
  have ex: "exporting ?N = Some ex" by (simp add: f st)
  have sh: "?shown = filter (\<lambda>r. supported ex (itemHeap ?N r)) (get_or (items ?N) [])"
    using default_supported [OF st F T refl, of tr tab h n] by simp
  note R = createItems_rendered [OF ex refl sh, folded M]
  have hp: "itemHeap ?N (n + k) = defaultItems tr ! k" if "k < 12" for k
    using f(2) that by simp
  have els: "itemElements M =
      map (\<lambda>(a, r). \<lparr>li_role = ''menuitem'', li_className = li_class (itemHeap ?N r), li_child = a\<rparr>)
        (enumerate 0 ?shown)"
    using R by (simp add: new_anchor_fields)
  have an: "anchorHeap M k = item_anchor tr tab (?shown ! k) (itemHeap ?N (?shown ! k))" if "k < 5" for k
    using R that by (simp add: new_anchor_fields)
  have ch: "map li_child (itemElements M) = [0, 1, 2, 3, 4]"
    unfolding els by (simp add: enumerate_eq_zip upt_rec)
  have hs: "itemHeap ?N n = defaultItems tr ! 0" "itemHeap ?N (Suc n) = defaultItems tr ! 1"
    "itemHeap ?N (n + 4) = defaultItems tr ! 4" "itemHeap ?N (n + 6) = defaultItems tr ! 6"
    "itemHeap ?N (n + 10) = defaultItems tr ! 10"
    using hp [of 0] hp [of 1] hp [of 4] hp [of 6] hp [of 10] by simp_all
  show "map li_className (itemElements M) =
       [''am5exporting am5exporting-item am5exporting-type-separator'',
        ''am5exporting am5exporting-item am5exporting-type-format am5exporting-format-png'',
        ''am5exporting am5exporting-item am5exporting-type-separator'',
        ''am5exporting am5exporting-item am5exporting-type-format am5exporting-format-csv'',
        ''am5exporting am5exporting-item am5exporting-type-separator'']"
    unfolding els
    by (simp add: enumerate_eq_zip hs defaultItems_def mk_item_def li_class_def type_name_def format_name_def)
  have mp: "map (\<lambda>e. g (anchorHeap M (li_child e))) (itemElements M) =
      map (\<lambda>k. g (anchorHeap M k)) [0, 1, 2, 3, 4]" for g :: "anchor \<Rightarrow> 'b"
    using arg_cong [OF ch, of "map (\<lambda>k. g (anchorHeap M k))"] by (simp add: comp_def)
  have a5: "anchorHeap M 0 = item_anchor tr tab n (defaultItems tr ! 0)"
    "anchorHeap M (Suc 0) = item_anchor tr tab (Suc n) (defaultItems tr ! 1)"
    "anchorHeap M 2 = item_anchor tr tab (n + 4) (defaultItems tr ! 4)"
    "anchorHeap M 3 = item_anchor tr tab (n + 6) (defaultItems tr ! 6)"
    "anchorHeap M 4 = item_anchor tr tab (n + 10) (defaultItems tr ! 10)"
    using an [of 0] an [of 1] an [of 2] an [of 3] an [of 4] by (simp_all add: hs)
  assume ne: "tr ''Export'' \<noteq> [] \<and> tr ''PNG'' \<noteq> [] \<and> tr ''CSV'' \<noteq> [] \<and> tr ''Image'' \<noteq> [] \<and> tr ''Data'' \<noteq> []"
  show \<open>map (\<lambda>e. a_innerHTML (anchorHeap M (li_child e))) (itemElements M) =
         [Assigned (tr ''Export''),
          Appended (Assigned (tr ''PNG'')) ('' <span class="am5exporting-label-alt">'' @ tr ''Image'' @ ''</span>''),
          NoChildren,
          Appended (Assigned (tr ''CSV'')) ('' <span class="am5exporting-label-alt">'' @ tr ''Data'' @ ''</span>''),
          NoChildren]\<close>
    using ne unfolding mp
    by (simp add: a5 item_anchor_def Let_def truthy_def get_or_def defaultItems_def mk_item_def)
  show "map (\<lambda>e. a_ariaLabel (anchorHeap M (li_child e))) (itemElements M) =
         [None, Some (tr ''Export'' @ '' '' @ tr ''PNG'' @ '' ('' @ tr ''Image'' @ '')''), None,
          Some (tr ''Export'' @ '' '' @ tr ''CSV'' @ '' ('' @ tr ''Data'' @ '')''), None]"
    using ne unfolding mp
    by (simp add: a5 item_anchor_def Let_def truthy_def get_or_def defaultItems_def mk_item_def)
qed

text \<open>
  C2. With an exporter attached, the entries rendered are those of the configured items
  whose format, when present, is among the supported formats and whose export type, when
  present, is among the supported types, in the order of the configuration: one list
  entry per such item, with the class name of its type and format and an anchor that is
  given the label of the item and, in a span after it, the sublabel (a text that is absent
  or empty adds nothing); exactly these items receive an element. In particular, for a
  menu constructed without an item list, whose exporter supports the formats png and csv
  and the types image and data, five entries are rendered: the heading, PNG, a separator,
  CSV and a separator, so that the entries of type format are those labelled PNG and CSV.
\<close>

theorem createItems_renders_supported:
  \<open>(exporting m = Some ex \<and> its = get_or (items m) [] \<and>
    shown = filter (\<lambda>r. supported ex (itemHeap m r)) its \<longrightarrow>
      itemElements (createItems m) =
        map (\<lambda>(a, r). \<lparr>li_role = ''menuitem'', li_className = li_class (itemHeap m r), li_child = a\<rparr>)
          (enumerate (nextAnchor m) shown) \<and>
      listElement (createItems m) = itemElements (createItems m) \<and>
      (\<forall>k < length shown.
         li_className (itemElements (createItems m) ! k) =
           ''am5exporting am5exporting-item am5exporting-type-'' @
           (case itemType (itemHeap m (shown ! k)) of
              Format \<Rightarrow> ''format'' | Separator \<Rightarrow> ''separator'' | Custom \<Rightarrow> ''custom'') @
           (case format (itemHeap m (shown ! k)) of
              None \<Rightarrow> [] | Some f \<Rightarrow> '' am5exporting-format-'' @ format_name f) \<and>
         li_child (itemElements (createItems m) ! k) = nextAnchor m + k \<and>
         anchorHeap (createItems m) (nextAnchor m + k) =
           item_anchor (translate m) (tabindex m) (shown ! k) (itemHeap m (shown ! k)) \<and>
         a_innerHTML (anchorHeap (createItems m) (nextAnchor m + k)) =
           (let base = (case label (itemHeap m (shown ! k)) of
                          Some (d # ds) \<Rightarrow> Assigned (d # ds) | _ \<Rightarrow> NoChildren)
            in case sublabel (itemHeap m (shown ! k)) of
                 Some (c # cs) \<Rightarrow>
                   Appended base ('' <span class="am5exporting-label-alt">'' @ c # cs @ ''</span>'')
               | _ \<Rightarrow> base) \<and>
         (callback (itemHeap m (shown ! k)) = None \<and> format (itemHeap m (shown ! k)) \<noteq> None \<longrightarrow>
            a_ariaLabel (anchorHeap (createItems m) (nextAnchor m + k)) =
              Some (translate m ''Export'' @
                (case label (itemHeap m (shown ! k)) of Some (d # ds) \<Rightarrow> '' '' @ d # ds | _ \<Rightarrow> []) @
                (case sublabel (itemHeap m (shown ! k)) of
                   Some (c # cs) \<Rightarrow> '' ('' @ c # cs @ '')'' | _ \<Rightarrow> [])))) \<and>
      (\<forall>r \<in> set shown. element (itemHeap (createItems m) r) \<noteq> None) \<and>
      (\<forall>r. r \<notin> set shown \<longrightarrow> element (itemHeap (createItems m) r) = element (itemHeap m r))) \<and>
   (s_items st = None \<and> s_exporting st = Some ex' \<and>
    set (supportedFormats ex') = {PNG, CSV} \<and> set (supportedExportTypes ex') = {TImage, TData} \<and>
    M = createItems (ExportingMenu_new tr tab st h n) \<longrightarrow>
      map li_className (itemElements M) =
        [''am5exporting am5exporting-item am5exporting-type-separator'',
         ''am5exporting am5exporting-item am5exporting-type-format am5exporting-format-png'',
         ''am5exporting am5exporting-item am5exporting-type-separator'',
         ''am5exporting am5exporting-item am5exporting-type-format am5exporting-format-csv'',
         ''am5exporting am5exporting-item am5exporting-type-separator''] \<and>
      (tr ''Export'' \<noteq> [] \<and> tr ''PNG'' \<noteq> [] \<and> tr ''CSV'' \<noteq> [] \<and> tr ''Image'' \<noteq> [] \<and>
       tr ''Data'' \<noteq> [] \<longrightarrow>
         map (\<lambda>e. a_innerHTML (anchorHeap M (li_child e))) (itemElements M) =
           [Assigned (tr ''Export''),
            Appended (Assigned (tr ''PNG''))
              ('' <span class="am5exporting-label-alt">'' @ tr ''Image'' @ ''</span>''),
            NoChildren,
            Appended (Assigned (tr ''CSV''))
              ('' <span class="am5exporting-label-alt">'' @ tr ''Data'' @ ''</span>''),
            NoChildren] \<and>
         map (\<lambda>e. a_ariaLabel (anchorHeap M (li_child e))) (itemElements M) =
           [None, Some (tr ''Export'' @ '' '' @ tr ''PNG'' @ '' ('' @ tr ''Image'' @ '')''), None,
            Some (tr ''Export'' @ '' '' @ tr ''CSV'' @ '' ('' @ tr ''Data'' @ '')''), None]))\<close>
proof (intro conjI impI)
  assume a: "exporting m = Some ex \<and> its = get_or (items m) [] \<and>
    shown = filter (\<lambda>r. supported ex (itemHeap m r)) its"
  note R = createItems_rendered [of m ex its shown]
  from a R show e: "itemElements (createItems m) =
        map (\<lambda>(a, r). \<lparr>li_role = ''menuitem'', li_className = li_class (itemHeap m r), li_child = a\<rparr>)
          (enumerate (nextAnchor m) shown)"
    by blast
  from a R show "listElement (createItems m) = itemElements (createItems m)" by blast
  from a R show "\<forall>r \<in> set shown. element (itemHeap (createItems m) r) \<noteq> None" by blast
  from a R show "\<forall>r. r \<notin> set shown \<longrightarrow> element (itemHeap (createItems m) r) = element (itemHeap m r)"
    by blast
  from a R have an: "\<forall>k < length shown. anchorHeap (createItems m) (nextAnchor m + k) =
      item_anchor (translate m) (tabindex m) (shown ! k) (itemHeap m (shown ! k))"
    by blast
  show \<open>\<forall>k < length shown.
         li_className (itemElements (createItems m) ! k) =
           ''am5exporting am5exporting-item am5exporting-type-'' @
           (case itemType (itemHeap m (shown ! k)) of
              Format \<Rightarrow> ''format'' | Separator \<Rightarrow> ''separator'' | Custom \<Rightarrow> ''custom'') @
           (case format (itemHeap m (shown ! k)) of
              None \<Rightarrow> [] | Some f \<Rightarrow> '' am5exporting-format-'' @ format_name f) \<and>
         li_child (itemElements (createItems m) ! k) = nextAnchor m + k \<and>
         anchorHeap (createItems m) (nextAnchor m + k) =
           item_anchor (translate m) (tabindex m) (shown ! k) (itemHeap m (shown ! k)) \<and>
         a_innerHTML (anchorHeap (createItems m) (nextAnchor m + k)) =
           (let base = (case label (itemHeap m (shown ! k)) of
                          Some (d # ds) \<Rightarrow> Assigned (d # ds) | _ \<Rightarrow> NoChildren)
            in case sublabel (itemHeap m (shown ! k)) of
                 Some (c # cs) \<Rightarrow>
                   Appended base ('' <span class="am5exporting-label-alt">'' @ c # cs @ ''</span>'')
               | _ \<Rightarrow> base) \<and>
         (callback (itemHeap m (shown ! k)) = None \<and> format (itemHeap m (shown ! k)) \<noteq> None \<longrightarrow>
            a_ariaLabel (anchorHeap (createItems m) (nextAnchor m + k)) =
              Some (translate m ''Export'' @
                (case label (itemHeap m (shown ! k)) of Some (d # ds) \<Rightarrow> '' '' @ d # ds | _ \<Rightarrow> []) @
                (case sublabel (itemHeap m (shown ! k)) of
                   Some (c # cs) \<Rightarrow> '' ('' @ c # cs @ '')'' | _ \<Rightarrow> [])))\<close>
  proof (intro allI impI)
    fix k assume k: "k < length shown"
    have n: "itemElements (createItems m) ! k =
        \<lparr>li_role = ''menuitem'', li_className = li_class (itemHeap m (shown ! k)),
         li_child = nextAnchor m + k\<rparr>"
      unfolding e using k by (simp add: nth_enumerate_eq)
    from an k have h: "anchorHeap (createItems m) (nextAnchor m + k) =
        item_anchor (translate m) (tabindex m) (shown ! k) (itemHeap m (shown ! k))"
      by blast
    show \<open>li_className (itemElements (createItems m) ! k) =
           ''am5exporting am5exporting-item am5exporting-type-'' @
           (case itemType (itemHeap m (shown ! k)) of
              Format \<Rightarrow> ''format'' | Separator \<Rightarrow> ''separator'' | Custom \<Rightarrow> ''custom'') @
           (case format (itemHeap m (shown ! k)) of
              None \<Rightarrow> [] | Some f \<Rightarrow> '' am5exporting-format-'' @ format_name f) \<and>
         li_child (itemElements (createItems m) ! k) = nextAnchor m + k \<and>
         anchorHeap (createItems m) (nextAnchor m + k) =
           item_anchor (translate m) (tabindex m) (shown ! k) (itemHeap m (shown ! k)) \<and>
         a_innerHTML (anchorHeap (createItems m) (nextAnchor m + k)) =
           (let base = (case label (itemHeap m (shown ! k)) of
                          Some (d # ds) \<Rightarrow> Assigned (d # ds) | _ \<Rightarrow> NoChildren)
            in case sublabel (itemHeap m (shown ! k)) of
                 Some (c # cs) \<Rightarrow>
                   Appended base ('' <span class="am5exporting-label-alt">'' @ c # cs @ ''</span>'')
               | _ \<Rightarrow> base) \<and>
         (callback (itemHeap m (shown ! k)) = None \<and> format (itemHeap m (shown ! k)) \<noteq> None \<longrightarrow>
            a_ariaLabel (anchorHeap (createItems m) (nextAnchor m + k)) =
              Some (translate m ''Export'' @
                (case label (itemHeap m (shown ! k)) of Some (d # ds) \<Rightarrow> '' '' @ d # ds | _ \<Rightarrow> []) @
                (case sublabel (itemHeap m (shown ! k)) of
                   Some (c # cs) \<Rightarrow> '' ('' @ c # cs @ '')'' | _ \<Rightarrow> [])))\<close>
      by (simp only: n h item_anchor_content(1)) (simp add: li_class_def type_name_def item_anchor_content(2))
  qed
next
  assume d: "s_items st = None \<and> s_exporting st = Some ex' \<and>
    set (supportedFormats ex') = {PNG, CSV} \<and> set (supportedExportTypes ex') = {TImage, TData} \<and>
    M = createItems (ExportingMenu_new tr tab st h n)"
  then have d': "s_items st = None" "s_exporting st = Some ex'"
    "set (supportedFormats ex') = {PNG, CSV}" "set (supportedExportTypes ex') = {TImage, TData}"
    "M = createItems (ExportingMenu_new tr tab st h n)"
    by simp_all
  note D = default_rendered [OF d']
  show "map li_className (itemElements M) =
        [''am5exporting am5exporting-item am5exporting-type-separator'',
         ''am5exporting am5exporting-item am5exporting-type-format am5exporting-format-png'',
         ''am5exporting am5exporting-item am5exporting-type-separator'',
         ''am5exporting am5exporting-item am5exporting-type-format am5exporting-format-csv'',
         ''am5exporting am5exporting-item am5exporting-type-separator'']"
    by (rule D(1))
  assume t: "tr ''Export'' \<noteq> [] \<and> tr ''PNG'' \<noteq> [] \<and> tr ''CSV'' \<noteq> [] \<and> tr ''Image'' \<noteq> [] \<and>
       tr ''Data'' \<noteq> []"
  show \<open>map (\<lambda>e. a_innerHTML (anchorHeap M (li_child e))) (itemElements M) =
           [Assigned (tr ''Export''),
            Appended (Assigned (tr ''PNG''))
              ('' <span class="am5exporting-label-alt">'' @ tr ''Image'' @ ''</span>''),
            NoChildren,
            Appended (Assigned (tr ''CSV''))
              ('' <span class="am5exporting-label-alt">'' @ tr ''Data'' @ ''</span>''),
            NoChildren]\<close>
    by (rule D(2) [OF t])
  show "map (\<lambda>e. a_ariaLabel (anchorHeap M (li_child e))) (itemElements M) =
           [None, Some (tr ''Export'' @ '' '' @ tr ''PNG'' @ '' ('' @ tr ''Image'' @ '')''), None,
            Some (tr ''Export'' @ '' '' @ tr ''CSV'' @ '' ('' @ tr ''Data'' @ '')''), None]"
    by (rule D(3) [OF t])
qed

theorem createItems_renders_supported_witness:
  \<open>exporting default_menu = Some png_csv \<and>
   filter (\<lambda>r. supported png_csv (itemHeap default_menu r)) (get_or (items default_menu) []) =
     [0, 1, 4, 6, 10] \<and>
   length (itemElements (createItems default_menu)) = 5 \<and>
   element (itemHeap (createItems default_menu) 6) \<noteq> None \<and>
   element (itemHeap (createItems default_menu) 3) = None \<and>
   map li_className (itemElements (createItems default_menu)) =
     [''am5exporting am5exporting-item am5exporting-type-separator'',
      ''am5exporting am5exporting-item am5exporting-type-format am5exporting-format-png'',
      ''am5exporting am5exporting-item am5exporting-type-separator'',
      ''am5exporting am5exporting-item am5exporting-type-format am5exporting-format-csv'',
      ''am5exporting am5exporting-item am5exporting-type-separator''] \<and>
   map (\<lambda>e. a_innerHTML (anchorHeap (createItems default_menu) (li_child e)))
       (itemElements (createItems default_menu)) =
     [Assigned ''Export'',
      Appended (Assigned ''PNG'') '' <span class="am5exporting-label-alt">Image</span>'',
      NoChildren,
      Appended (Assigned ''CSV'') '' <span class="am5exporting-label-alt">Data</span>'',
      NoChildren] \<and>
   map (\<lambda>e. a_ariaLabel (anchorHeap (createItems default_menu) (li_child e)))
       (itemElements (createItems default_menu)) =
     [None, Some ''Export PNG (Image)'', None, Some ''Export CSV (Data)'', None]\<close>
proof -
  let ?st = "\<lparr>s_align = None, s_valign = None, s_items = None, s_exporting = Some png_csv,
    s_autoClose = None\<rparr>"
  let ?M = "createItems default_menu"
  have its: "[0 ..< 12] = get_or (items default_menu) []"
    by (simp add: default_menu_fields get_or_def)
  have sh: "[0, 1, 4, 6, 10] = filter (\<lambda>r. supported png_csv (itemHeap default_menu r)) [0 ..< 12]"
    by (simp only: default_shown)
  have st: "s_items ?st = None" "s_exporting ?st = Some png_csv"
    "set (supportedFormats png_csv) = {PNG, CSV}" "set (supportedExportTypes png_csv) = {TImage, TData}"
    "?M = createItems (ExportingMenu_new (\<lambda>t. t) 0 ?st (\<lambda>_. mk_item Separator None None None None) 0)"
    by (simp_all add: png_csv_def default_menu_def)
  have ne: "(\<lambda>t. t) ''Export'' \<noteq> [] \<and> (\<lambda>t. t) ''PNG'' \<noteq> [] \<and> (\<lambda>t. t) ''CSV'' \<noteq> [] \<and>
      (\<lambda>t. t) ''Image'' \<noteq> [] \<and> (\<lambda>t. t) ''Data'' \<noteq> []"
    by simp
  note T = createItems_renders_supported [where m = default_menu and ex = png_csv
      and its = "[0 ..< 12]" and shown = "[0, 1, 4, 6, 10]" and st = ?st and ex' = png_csv
      and M = ?M and tr = "\<lambda>t. t" and tab = 0
      and h = "\<lambda>_. mk_item Separator None None None None" and n = 0]
  from T default_menu_fields(1) its sh
  have A: "itemElements ?M =
      map (\<lambda>(a, r). \<lparr>li_role = ''menuitem'', li_className = li_class (itemHeap default_menu r), li_child = a\<rparr>)
        (enumerate (nextAnchor default_menu) [0, 1, 4, 6, 10])"
    and E: "\<forall>r \<in> set [0, 1, 4, 6, 10]. element (itemHeap ?M r) \<noteq> None"
    and U: "\<forall>r. r \<notin> set [0, 1, 4, 6, 10] \<longrightarrow> element (itemHeap ?M r) = element (itemHeap default_menu r)"
    by blast+
  from T st
  have B: "map li_className (itemElements ?M) =
     [''am5exporting am5exporting-item am5exporting-type-separator'',
      ''am5exporting am5exporting-item am5exporting-type-format am5exporting-format-png'',
      ''am5exporting am5exporting-item am5exporting-type-separator'',
      ''am5exporting am5exporting-item am5exporting-type-format am5exporting-format-csv'',
      ''am5exporting am5exporting-item am5exporting-type-separator'']"
    by blast
  from T st ne
  have C: \<open>map (\<lambda>e. a_innerHTML (anchorHeap ?M (li_child e))) (itemElements ?M) =
           [Assigned ((\<lambda>t. t) ''Export''),
            Appended (Assigned ((\<lambda>t. t) ''PNG''))
              ('' <span class="am5exporting-label-alt">'' @ (\<lambda>t. t) ''Image'' @ ''</span>''),
            NoChildren,
            Appended (Assigned ((\<lambda>t. t) ''CSV''))
              ('' <span class="am5exporting-label-alt">'' @ (\<lambda>t. t) ''Data'' @ ''</span>''),
            NoChildren]\<close>
    and L: "map (\<lambda>e. a_ariaLabel (anchorHeap ?M (li_child e))) (itemElements ?M) =
           [None, Some ((\<lambda>t. t) ''Export'' @ '' '' @ (\<lambda>t. t) ''PNG'' @ '' ('' @ (\<lambda>t. t) ''Image'' @ '')''), None,
            Some ((\<lambda>t. t) ''Export'' @ '' '' @ (\<lambda>t. t) ''CSV'' @ '' ('' @ (\<lambda>t. t) ''Data'' @ '')''), None]"
    by blast+
  show ?thesis
  proof (intro conjI)
    show "exporting default_menu = Some png_csv" by (rule default_menu_fields(1))
    show "filter (\<lambda>r. supported png_csv (itemHeap default_menu r)) (get_or (items default_menu) []) =
        [0, 1, 4, 6, 10]"
      by (simp add: its [symmetric] default_shown)
    show "length (itemElements ?M) = 5" unfolding A by simp
    show "element (itemHeap ?M 6) \<noteq> None" using E by simp
    show "element (itemHeap ?M 3) = None"
      using U [rule_format, of 3] by (simp add: default_menu_fields(3) default_items_labels)
    show "map li_className (itemElements ?M) =
       [''am5exporting am5exporting-item am5exporting-type-separator'',
        ''am5exporting am5exporting-item am5exporting-type-format am5exporting-format-png'',
        ''am5exporting am5exporting-item am5exporting-type-separator'',
        ''am5exporting am5exporting-item am5exporting-type-format am5exporting-format-csv'',
        ''am5exporting am5exporting-item am5exporting-type-separator'']"
      by (rule B)
    show \<open>map (\<lambda>e. a_innerHTML (anchorHeap ?M (li_child e))) (itemElements ?M) =
     [Assigned ''Export'',
      Appended (Assigned ''PNG'') '' <span class="am5exporting-label-alt">Image</span>'',
      NoChildren,
      Appended (Assigned ''CSV'') '' <span class="am5exporting-label-alt">Data</span>'',
      NoChildren]\<close>
      using C by simp
    show "map (\<lambda>e. a_ariaLabel (anchorHeap ?M (li_child e))) (itemElements ?M) =
     [None, Some ''Export PNG (Image)'', None, Some ''Export CSV (Data)'', None]"
      using L by simp
  qed
qed

section \<open>Arrow keys on the default menu\<close>

lemma menu_open_frame:
  "items (menu_open m) = items m" "itemHeap (menu_open m) = itemHeap m"
  "activeItem (menu_open m) = activeItem m" "valign (menu_open m) = valign m"
  "exporting (menu_open m) = exporting m"
  by (simp_all add: menu_open_def applyClassNames_def Let_def)

lemma upt12: "[0 ..< 12] = [0, 1, 2, 3, 4, 5, 6, 7, 8, 9, 10, 11 :: nat]"
  by (simp add: upt_rec)

lemma default_menu_more:
  "activeItem default_menu = None" "valign default_menu = Some ''top''"
  "k < 12 \<Longrightarrow> element (itemHeap default_menu k) = None"
  "k < 12 \<Longrightarrow> supported png_csv (itemHeap default_menu k) = (k \<in> set [0, 1, 4, 6, 10])"
proof -
  show "activeItem default_menu = None" "valign default_menu = Some ''top''"
    by (simp_all add: default_menu_def ExportingMenu_new_def afterNew_frame constructed_def
        setRawDefault_def)
  show "element (itemHeap default_menu k) = None" if "k < 12"
    using that by (simp add: default_menu_fields(3) default_items_labels)
  show "supported png_csv (itemHeap default_menu k) = (k \<in> set [0, 1, 4, 6, 10])" if "k < 12"
  proof -
    have "k \<in> set (filter (\<lambda>r. supported png_csv (itemHeap default_menu r)) [0 ..< 12]) =
        (k \<in> set [0, 1, 4, 6, 10])"
      by (simp only: default_shown)
    with that show ?thesis by simp
  qed
qed

lemma opened_fields:
  "isOpen opened_menu" "activeItem opened_menu = None" "valign opened_menu = Some ''top''"
  "exporting opened_menu = Some png_csv"
  "get_or (items opened_menu) [] = [0 ..< 12]"
  "k < 12 \<Longrightarrow> itemType (itemHeap opened_menu k) = itemType (defaultItems (\<lambda>t. t) ! k)"
  "k < 12 \<Longrightarrow> (element (itemHeap opened_menu k) = None) = (k \<notin> set [0, 1, 4, 6, 10])"
proof -
  show "isOpen opened_menu" by (simp add: opened_menu_def menu_open_effect)
  show "activeItem opened_menu = None" "valign opened_menu = Some ''top''"
    "exporting opened_menu = Some png_csv" "get_or (items opened_menu) [] = [0 ..< 12]"
    by (simp_all add: opened_menu_def menu_open_frame createItems_frame default_menu_more
        default_menu_fields get_or_def)
  show "itemType (itemHeap opened_menu k) = itemType (defaultItems (\<lambda>t. t) ! k)" if "k < 12"
    using that same_config_reads(4) [OF createItems_frame(5) [of default_menu], of k]
    by (simp add: opened_menu_def menu_open_frame default_menu_fields(3))
  show "(element (itemHeap opened_menu k) = None) = (k \<notin> set [0, 1, 4, 6, 10])" if "k < 12"
  proof (cases "supported png_csv (itemHeap default_menu k)")
    case True
    have "k \<in> set (get_or (items default_menu) [])"
      using that by (simp add: default_menu_fields get_or_def)
    from createItems_element(2) [OF default_menu_fields(1) this True] True that
    show ?thesis by (simp add: opened_menu_def menu_open_frame default_menu_more(4))
  next
    case False
    from createItems_element(1) [OF default_menu_fields(1), of k] False that
    show ?thesis by (simp add: opened_menu_def menu_open_frame default_menu_more)
  qed
qed

lemma opened_types:
  "\<not> interactive (itemHeap opened_menu) 0" "interactive (itemHeap opened_menu) (Suc 0)"
  "interactive (itemHeap opened_menu) 1"
  "interactive (itemHeap opened_menu) 2" "interactive (itemHeap opened_menu) 3"
  "\<not> interactive (itemHeap opened_menu) 4" "interactive (itemHeap opened_menu) 5"
  "interactive (itemHeap opened_menu) 6" "interactive (itemHeap opened_menu) 7"
  "interactive (itemHeap opened_menu) 8" "interactive (itemHeap opened_menu) 9"
  "\<not> interactive (itemHeap opened_menu) 10" "interactive (itemHeap opened_menu) 11"
  by (simp_all add: interactive_def opened_fields(6) defaultItems_def mk_item_def)

lemma opened_elements:
  "element (itemHeap opened_menu 1) \<noteq> None" "element (itemHeap opened_menu (Suc 0)) \<noteq> None"
  "element (itemHeap opened_menu 2) = None" "element (itemHeap opened_menu 3) = None"
  "element (itemHeap opened_menu 6) \<noteq> None" "element (itemHeap opened_menu 11) = None"
  using opened_fields(7) [of 1] opened_fields(7) [of 2] opened_fields(7) [of 3]
    opened_fields(7) [of 6] opened_fields(7) [of 11]
  by simp_all

lemma opened_interactive:
  "filter (interactive (itemHeap opened_menu)) [0 ..< 12] = [1, 2, 3, 5, 6, 7, 8, 9, 11]"
  by (simp add: upt12 opened_types)

lemma state_frame:
  "isOpen at_png" "isOpen at_jpg" "isOpen at_print" "isOpen at_png_print"
  "get_or (items at_png) [] = [0 ..< 12]" "get_or (items at_jpg) [] = [0 ..< 12]"
  "get_or (items at_print) [] = [0 ..< 12]" "get_or (items at_png_print) [] = [0 ..< 12]"
  "itemHeap at_png = itemHeap opened_menu" "itemHeap at_jpg = itemHeap opened_menu"
  "itemHeap at_print = itemHeap opened_menu" "itemHeap at_png_print = itemHeap opened_menu"
  by (simp_all add: at_png_def at_jpg_def at_print_def at_png_print_def handleItemFocus_frame
      opened_fields)

lemma state_rendered: "active_rendered opened_menu" "active_rendered at_png"
proof -
  show o: "active_rendered opened_menu" by (simp add: active_rendered_def opened_fields)
  have "activeItem at_png = Some 1"
    unfolding at_png_def by (rule handleItemFocus_active [OF o])
  then show "active_rendered at_png"
    using opened_elements(1) by (simp add: active_rendered_def state_frame)
qed

lemma state_active:
  "activeItem at_png = Some 1" "activeItem at_jpg = Some 2" "activeItem at_print = Some 11"
  "activeItem at_png_print = Some 11"
proof -
  show "activeItem at_png = Some 1"
    unfolding at_png_def by (rule handleItemFocus_active [OF state_rendered(1)])
  show "activeItem at_jpg = Some 2"
    unfolding at_jpg_def by (rule handleItemFocus_active [OF state_rendered(2)])
  show "activeItem at_print = Some 11"
    unfolding at_print_def by (rule handleItemFocus_active [OF state_rendered(1)])
  show "activeItem at_png_print = Some 11"
    unfolding at_png_print_def by (rule handleItemFocus_active [OF state_rendered(2)])
qed

lemma state_next:
  "next_interactive (itemHeap opened_menu) [0 ..< 12] None = 1"
  "next_interactive (itemHeap opened_menu) [0 ..< 12] (Some 1) = 2"
  "next_interactive (itemHeap opened_menu) [0 ..< 12] (Some 2) = 3"
  "next_interactive (itemHeap opened_menu) [0 ..< 12] (Some 11) = 1"
  "prev_interactive (itemHeap opened_menu) [0 ..< 12] None = 11"
  "prev_interactive (itemHeap opened_menu) [0 ..< 12] (Some 1) = 11"
  "prev_interactive (itemHeap opened_menu) [0 ..< 12] (Some 2) = 1"
  "prev_interactive (itemHeap opened_menu) [0 ..< 12] (Some 11) = 9"
  by (simp_all add: next_interactive_def prev_interactive_def upt12 opened_types)

lemma arrow_at:
  assumes "get_or (items S) [] = [0 ..< 12]" "itemHeap S = itemHeap opened_menu"
  shows "arrowKey S 40 = Some (handleItemFocus S (next_interactive (itemHeap opened_menu) [0 ..< 12] (activeItem S)))"
    and "arrowKey S 38 = Some (handleItemFocus S (prev_interactive (itemHeap opened_menu) [0 ..< 12] (activeItem S)))"
proof -
  have ne: "filter (interactive (itemHeap S)) (get_or (items S) []) \<noteq> []"
    by (simp add: assms opened_interactive)
  show "arrowKey S 40 = Some (handleItemFocus S (next_interactive (itemHeap opened_menu) [0 ..< 12] (activeItem S)))"
    using arrowKey_down [OF ne] by (simp add: assms)
  show "arrowKey S 38 = Some (handleItemFocus S (prev_interactive (itemHeap opened_menu) [0 ..< 12] (activeItem S)))"
    using arrowKey_up [OF ne] by (simp add: assms)
qed

lemma focus_results:
  "handleItemFocus opened_menu 1 = (Normal, at_png)"
  "handleItemFocus opened_menu 11 = (Thrown TypeError, at_print)"
  "handleItemFocus at_png 2 = (Thrown TypeError, at_jpg)"
  "handleItemFocus at_png 11 = (Thrown TypeError, at_png_print)"
proof -
  show "handleItemFocus opened_menu 1 = (Normal, at_png)"
    using handleItemFocus_normal [OF state_rendered(1) opened_elements(1)]
    by (simp add: at_png_def prod_eq_iff)
  show "handleItemFocus opened_menu 11 = (Thrown TypeError, at_print)"
    using handleItemFocus_unrendered(1) [OF state_rendered(1) opened_elements(6)]
    by (simp add: at_print_def prod_eq_iff)
  have e: "element (itemHeap at_png 2) = None" "element (itemHeap at_png 11) = None"
    by (simp_all add: state_frame opened_elements)
  show "handleItemFocus at_png 2 = (Thrown TypeError, at_jpg)"
    using handleItemFocus_unrendered(1) [OF state_rendered(2) e(1)]
    by (simp add: at_jpg_def prod_eq_iff)
  show "handleItemFocus at_png 11 = (Thrown TypeError, at_png_print)"
    using handleItemFocus_unrendered(1) [OF state_rendered(2) e(2)]
    by (simp add: at_png_print_def prod_eq_iff)
qed

lemma focus_stuck:
  "r \<noteq> 2 \<Longrightarrow> handleItemFocus at_jpg r = (Thrown TypeError, at_jpg)"
  "r \<noteq> 11 \<Longrightarrow> handleItemFocus at_print r = (Thrown TypeError, at_print)"
  "r \<noteq> 11 \<Longrightarrow> handleItemFocus at_png_print r = (Thrown TypeError, at_png_print)"
proof -
  show "handleItemFocus at_jpg r = (Thrown TypeError, at_jpg)" if "r \<noteq> 2"
    using that by (intro handleItemFocus_stuck [OF state_active(2)]) (simp_all add: state_frame opened_elements)
  show "handleItemFocus at_print r = (Thrown TypeError, at_print)" if "r \<noteq> 11"
    using that by (intro handleItemFocus_stuck [OF state_active(3)]) (simp_all add: state_frame opened_elements)
  show "handleItemFocus at_png_print r = (Thrown TypeError, at_png_print)" if "r \<noteq> 11"
    using that by (intro handleItemFocus_stuck [OF state_active(4)]) (simp_all add: state_frame opened_elements)
qed

lemma arrow_steps:
  "arrowKey opened_menu 40 = Some (Normal, at_png)"
  "arrowKey opened_menu 38 = Some (Thrown TypeError, at_print)"
  "arrowKey at_png 40 = Some (Thrown TypeError, at_jpg)"
  "arrowKey at_png 38 = Some (Thrown TypeError, at_png_print)"
  "arrowKey at_jpg 40 = Some (Thrown TypeError, at_jpg)"
  "arrowKey at_jpg 38 = Some (Thrown TypeError, at_jpg)"
  "arrowKey at_print 40 = Some (Thrown TypeError, at_print)"
  "arrowKey at_print 38 = Some (Thrown TypeError, at_print)"
  "arrowKey at_png_print 40 = Some (Thrown TypeError, at_png_print)"
  "arrowKey at_png_print 38 = Some (Thrown TypeError, at_png_print)"
  by (simp_all add: arrow_at state_frame state_active opened_fields(2,5) state_next focus_results
      focus_stuck del: One_nat_def)

lemma keydown_open: "isOpen m \<Longrightarrow> keydown m f 40 = arrowKey m 40" "isOpen m \<Longrightarrow> keydown m f 38 = arrowKey m 38"
  by (simp_all add: keydown_def)

lemma key_steps:
  "keydown opened_menu False 40 = Some (Normal, at_png)"
  "keydown opened_menu False 38 = Some (Thrown TypeError, at_print)"
  "keydown at_png False 40 = Some (Thrown TypeError, at_jpg)"
  "keydown at_png False 38 = Some (Thrown TypeError, at_png_print)"
  "keydown at_jpg False 40 = Some (Thrown TypeError, at_jpg)"
  "keydown at_jpg False 38 = Some (Thrown TypeError, at_jpg)"
  "keydown at_print False 40 = Some (Thrown TypeError, at_print)"
  "keydown at_print False 38 = Some (Thrown TypeError, at_print)"
  "keydown at_png_print False 40 = Some (Thrown TypeError, at_png_print)"
  "keydown at_png_print False 38 = Some (Thrown TypeError, at_png_print)"
  by (simp_all add: keydown_open state_frame opened_fields(1) arrow_steps)

text \<open>
  C6. On the menu of the default items whose exporter supports png and csv, opened and
  with no item active, the first Down makes PNG, the first interactive item, active. The
  second Down makes JPG active, an item without an element since the exporter does not
  support it, and the handler raises a TypeError; from then on every Down or Up raises
  before it changes anything, so the keys neither go through the interactive items nor
  come back to the first. With no item active, Up makes Print active, the last
  interactive item, and raises in the same way; after PNG it does the same.
\<close>

theorem arrow_navigation_stuck:
  "activeItem opened_menu = None \<and> valign opened_menu = Some ''top'' \<and>
   get_or (items opened_menu) [] = [0, 1, 2, 3, 4, 5, 6, 7, 8, 9, 10, 11] \<and>
   filter (\<lambda>r. itemType (itemHeap opened_menu r) \<noteq> Separator) (get_or (items opened_menu) []) =
     [1, 2, 3, 5, 6, 7, 8, 9, 11] \<and>
   filter (\<lambda>r. element (itemHeap opened_menu r) \<noteq> None) [1, 2, 3, 5, 6, 7, 8, 9, 11] = [1, 6] \<and>
   pressKeys [40] opened_menu = Some ([Normal], at_png) \<and>
   pressKeys [40, 40] opened_menu = Some ([Normal, Thrown TypeError], at_jpg) \<and>
   pressKeys [40, 40, 40] opened_menu = Some ([Normal, Thrown TypeError, Thrown TypeError], at_jpg) \<and>
   pressKeys [40, 40, 38] opened_menu = Some ([Normal, Thrown TypeError, Thrown TypeError], at_jpg) \<and>
   pressKeys [38] opened_menu = Some ([Thrown TypeError], at_print) \<and>
   pressKeys [38, 38] opened_menu = Some ([Thrown TypeError, Thrown TypeError], at_print) \<and>
   pressKeys [38, 40] opened_menu = Some ([Thrown TypeError, Thrown TypeError], at_print) \<and>
   pressKeys [40, 38] opened_menu = Some ([Normal, Thrown TypeError], at_png_print) \<and>
   activeItem at_png = Some 1 \<and> activeItem at_jpg = Some 2 \<and>
   activeItem at_print = Some 11 \<and> activeItem at_png_print = Some 11"
proof -
  have i: "filter (\<lambda>r. itemType (itemHeap opened_menu r) \<noteq> Separator) (get_or (items opened_menu) []) =
     [1, 2, 3, 5, 6, 7, 8, 9, 11]"
  proof -
    have "interactive (itemHeap opened_menu) = (\<lambda>r. itemType (itemHeap opened_menu r) \<noteq> Separator)"
      by (simp add: fun_eq_iff interactive_def)
    with opened_interactive show ?thesis by (simp add: opened_fields(5))
  qed
  have e: "filter (\<lambda>r. element (itemHeap opened_menu r) \<noteq> None) [1, 2, 3, 5, 6, 7, 8, 9, 11] = [1, 6]"
    using opened_fields(7) [of 1] opened_fields(7) [of 2] opened_fields(7) [of 3]
      opened_fields(7) [of 5] opened_fields(7) [of 6] opened_fields(7) [of 7]
      opened_fields(7) [of 8] opened_fields(7) [of 9] opened_fields(7) [of 11]
    by simp
  have l: "get_or (items opened_menu) [] = [0, 1, 2, 3, 4, 5, 6, 7, 8, 9, 10, 11]"
    by (simp only: opened_fields(5) upt12)
  have p: "pressKeys [40] opened_menu = Some ([Normal], at_png)"
    "pressKeys [40, 40] opened_menu = Some ([Normal, Thrown TypeError], at_jpg)"
    "pressKeys [40, 40, 40] opened_menu = Some ([Normal, Thrown TypeError, Thrown TypeError], at_jpg)"
    "pressKeys [40, 40, 38] opened_menu = Some ([Normal, Thrown TypeError, Thrown TypeError], at_jpg)"
    "pressKeys [38] opened_menu = Some ([Thrown TypeError], at_print)"
    "pressKeys [38, 38] opened_menu = Some ([Thrown TypeError, Thrown TypeError], at_print)"
    "pressKeys [38, 40] opened_menu = Some ([Thrown TypeError, Thrown TypeError], at_print)"
    "pressKeys [40, 38] opened_menu = Some ([Normal, Thrown TypeError], at_png_print)"
    by (simp_all add: key_steps)
  show ?thesis
    by (intro conjI opened_fields(2,3) l i e p state_active)
qed


end
